theory Spec2Isabelle
  imports Complex_Main
begin

section \<open>The JavaScript values the validator works on\<close>

text \<open>
  The program is \<^verbatim>\<open>utility.ts\<close> (key normalisation, balance check, the two-pass
  \<^verbatim>\<open>processFile\<close>, the CSV and XML entry points) together with the schema declaration
  \<^verbatim>\<open>schema.ts\<close>. It is TypeScript, so its data are JavaScript strings, numbers and plain
  objects. This section embeds the part of the language the code relies on.

  Strings are \<^typ>\<open>string\<close>; a \<^typ>\<open>char\<close> stands for the UTF-16 code unit with the
  same number, so the model covers the code units U+0000 to U+00FF.
\<close>

subsection \<open>Characters\<close>

text \<open>The class \<^verbatim>\<open>\s\<close> of a regular expression, which is also the white space that
  \<^verbatim>\<open>Number(string)\<close> strips: TAB, LF, VT, FF, CR, SPACE and NBSP below U+0100.\<close>

definition isWhiteSpace :: "char \<Rightarrow> bool" where
  "isWhiteSpace c = (of_char c \<in> {9, 10, 11, 12, 13, 32, 160 :: int})"

text \<open>\<^verbatim>\<open>toLowerCase\<close> on one code unit: A-Z, and the capital letters of Latin-1
  (U+00C0 to U+00DE without the multiplication sign U+00D7), move up by 32.\<close>

definition toLowerCase_char :: "char \<Rightarrow> char" where
  "toLowerCase_char c =
     (let n = (of_char c :: int)
      in if (65 \<le> n \<and> n \<le> 90) \<or> (192 \<le> n \<and> n \<le> 222 \<and> n \<noteq> 215)
         then char_of (n + 32) else c)"

definition toLowerCase :: "string \<Rightarrow> string" where
  "toLowerCase s = map toLowerCase_char s"

definition isDigit :: "char \<Rightarrow> bool" where
  "isDigit c = (48 \<le> (of_char c :: int) \<and> (of_char c :: int) \<le> 57)"

definition digitVal :: "char \<Rightarrow> int" where
  "digitVal c = of_char c - 48"

definition hexVal :: "char \<Rightarrow> int option" where
  "hexVal c =
     (let n = (of_char c :: int)
      in if 48 \<le> n \<and> n \<le> 57 then Some (n - 48)
         else if 97 \<le> n \<and> n \<le> 102 then Some (n - 87)
         else if 65 \<le> n \<and> n \<le> 70 then Some (n - 55)
         else None)"

text \<open>Integers are \<^typ>\<open>int\<close> throughout: the value of a run of decimal digits,
  and the decimal digits of an integer that is not negative.\<close>

definition intOfDigits :: "string \<Rightarrow> int" where
  "intOfDigits ds = foldl (\<lambda>acc c. 10 * acc + digitVal c) 0 ds"

function digitsOf :: "int \<Rightarrow> string" where
  "digitsOf n =
     (if n < 10 then [char_of (48 + n)] else digitsOf (n div 10) @ [char_of (48 + n mod 10)])"
  by pat_completeness auto
termination
  by (relation "measure nat") auto

declare digitsOf.simps [simp del]

text \<open>\<^verbatim>\<open>Array.prototype.join\<close> on an array of strings.\<close>

fun join :: "string \<Rightarrow> string list \<Rightarrow> string" where
  "join sep [] = []"
| "join sep [x] = x"
| "join sep (x # y # ys) = x @ sep @ join sep (y # ys)"

subsection \<open>Numbers\<close>

text \<open>
  A JavaScript number is an IEEE 754 binary64 value. A finite one is kept as the rational
  it denotes; the two zeros are one value here, which no operation of this program can tell
  apart (\<^verbatim>\<open>toFixed\<close> and string conversion print both as zero, the \<^verbatim>\<open>Set\<close>
  compares them equal). Arithmetic rounds its exact result to the nearest binary64 value,
  ties to even, with \<open>round64\<close>.
\<close>

datatype jsnum = NaN | PosInf | NegInf | Fin rat

fun isNaN :: "jsnum \<Rightarrow> bool" where
  "isNaN NaN = True"
| "isNaN _ = False"

fun isFinite :: "jsnum \<Rightarrow> bool" where
  "isFinite (Fin q) = True"
| "isFinite _ = False"

fun isInteger :: "jsnum \<Rightarrow> bool" where
  "isInteger (Fin q) = (of_int \<lfloor>q\<rfloor> = q)"
| "isInteger _ = False"

text \<open>The comparison \<^verbatim>\<open>x < 0\<close>.\<close>

fun isNegative :: "jsnum \<Rightarrow> bool" where
  "isNegative (Fin q) = (q < 0)"
| "isNegative NegInf = True"
| "isNegative _ = False"

text \<open>The number of binary and of decimal digits of a positive integer.\<close>

function bitlen :: "int \<Rightarrow> int" where
  "bitlen n = (if n \<le> 0 then 0 else 1 + bitlen (n div 2))"
  by pat_completeness auto
termination
  by (relation "measure nat") auto

function declen :: "int \<Rightarrow> int" where
  "declen n = (if n \<le> 0 then 0 else 1 + declen (n div 10))"
  by pat_completeness auto
termination
  by (relation "measure nat") auto

declare bitlen.simps [simp del] declen.simps [simp del]

definition pow2 :: "int \<Rightarrow> rat" where
  "pow2 e = (if 0 \<le> e then 2 ^ nat e else 1 / 2 ^ nat (- e))"

definition pow10 :: "int \<Rightarrow> rat" where
  "pow10 e = (if 0 \<le> e then 10 ^ nat e else 1 / 10 ^ nat (- e))"

text \<open>For a positive rational: the exponents \<open>e\<close> with \<open>2 ^ e \<le> a < 2 ^ (e + 1)\<close> and
  \<open>10 ^ e \<le> a < 10 ^ (e + 1)\<close>.\<close>

definition ilog2 :: "rat \<Rightarrow> int" where
  "ilog2 a =
     (let (p, q) = quotient_of a;
          d = bitlen p - bitlen q
      in if pow2 d \<le> a then d else d - 1)"

definition ilog10 :: "rat \<Rightarrow> int" where
  "ilog10 a =
     (let (p, q) = quotient_of a;
          d = declen p - declen q
      in if pow10 d \<le> a then d else d - 1)"

definition roundHalfEven :: "rat \<Rightarrow> int" where
  "roundHalfEven x =
     (let f = \<lfloor>x\<rfloor>; r = x - of_int f
      in if r < 1 / 2 then f else if 1 / 2 < r then f + 1 else if even f then f else f + 1)"

text \<open>Rounding to binary64: the magnitude is rounded to a multiple \<open>m * u\<close> of the unit
  in the last place \<open>u\<close> of its binade (of the smallest binade for a subnormal value). The
  result is infinite when \<open>m * u\<close> reaches \<open>2 ^ 1024\<close>, which is the case from the exponent
  1024 on, and at the exponent 1023 when \<open>m\<close> was rounded up to \<open>2 ^ 53\<close>.\<close>

definition round64 :: "rat \<Rightarrow> jsnum" where
  "round64 q =
     (if q = 0 then Fin 0
      else let a = \<bar>q\<bar>;
               e = max (ilog2 a) (- 1022);
               u = pow2 (e - 52);
               m = roundHalfEven (a / u)
           in if 1024 \<le> e \<or> (e = 1023 \<and> 9007199254740992 \<le> m)
              then (if q < 0 then NegInf else PosInf)
              else Fin (if q < 0 then - (of_int m * u) else of_int m * u))"

text \<open>The operator \<^verbatim>\<open>+\<close> on two numbers.\<close>

fun js_add :: "jsnum \<Rightarrow> jsnum \<Rightarrow> jsnum" where
  "js_add NaN y = NaN"
| "js_add x NaN = NaN"
| "js_add PosInf NegInf = NaN"
| "js_add NegInf PosInf = NaN"
| "js_add PosInf y = PosInf"
| "js_add x PosInf = PosInf"
| "js_add NegInf y = NegInf"
| "js_add x NegInf = NegInf"
| "js_add (Fin a) (Fin b) = round64 (a + b)"

text \<open>
  Number to string (\<^verbatim>\<open>Number::toString\<close>, used by template literals). For a positive
  value the digits are the shortest decimal \<open>s * 10 ^ (n - k)\<close>, \<open>s\<close> of \<open>k\<close> digits, that
  rounds back to the value, the closest one where several of that length do. Seventeen
  digits always suffice for a binary64 value, so the search is given that many rounds.
\<close>

definition digitCandidates :: "rat \<Rightarrow> int \<Rightarrow> nat \<Rightarrow> (int \<times> int) list" where
  "digitCandidates x n0 k =
     (let t = x / pow10 (n0 - int k);
          lo = \<lfloor>t\<rfloor>;
          hi = (if lo + 1 = 10 ^ k then (10 ^ (k - 1), n0 + 1) else (lo + 1, n0))
      in filter (\<lambda>(s, n). round64 (of_int s * pow10 (n - int k)) = Fin x) [(lo, n0), hi])"

definition closerDigits :: "rat \<Rightarrow> nat \<Rightarrow> (int \<times> int) \<Rightarrow> (int \<times> int) \<Rightarrow> (int \<times> int)" where
  "closerDigits x k c1 c2 =
     (let d1 = \<bar>of_int (fst c1) * pow10 (snd c1 - int k) - x\<bar>;
          d2 = \<bar>of_int (fst c2) * pow10 (snd c2 - int k) - x\<bar>
      in if d1 < d2 then c1 else if d2 < d1 then c2 else if even (fst c1) then c1 else c2)"

fun shortestDigits :: "rat \<Rightarrow> int \<Rightarrow> nat \<Rightarrow> nat \<Rightarrow> (int \<times> nat \<times> int)" where
  "shortestDigits x n0 k 0 = (\<lfloor>x / pow10 (n0 - int k)\<rfloor>, k, n0)"
| "shortestDigits x n0 k (Suc fuel) =
     (case digitCandidates x n0 k of
        [] \<Rightarrow> shortestDigits x n0 (Suc k) fuel
      | [c] \<Rightarrow> (fst c, k, snd c)
      | c1 # c2 # _ \<Rightarrow> (let c = closerDigits x k c1 c2 in (fst c, k, snd c)))"

definition posToString :: "rat \<Rightarrow> string" where
  "posToString x =
     (let (s, k, n) = shortestDigits x (ilog10 x + 1) 1 17;
          ds = digitsOf s
      in if int k \<le> n \<and> n \<le> 21 then ds @ replicate (nat (n - int k)) CHR ''0''
         else if 0 < n \<and> n \<le> 21 then take (nat n) ds @ ''.'' @ drop (nat n) ds
         else if - 6 < n \<and> n \<le> 0 then ''0.'' @ replicate (nat (- n)) CHR ''0'' @ ds
         else let e = n - 1;
                  es = (if e < 0 then ''-'' else ''+'') @ digitsOf \<bar>e\<bar>
              in if k = 1 then ds @ ''e'' @ es
                 else take 1 ds @ ''.'' @ drop 1 ds @ ''e'' @ es)"

fun numToString :: "jsnum \<Rightarrow> string" where
  "numToString NaN = ''NaN''"
| "numToString PosInf = ''Infinity''"
| "numToString NegInf = ''-Infinity''"
| "numToString (Fin q) =
     (if q = 0 then ''0'' else if q < 0 then ''-'' @ posToString (- q) else posToString q)"

text \<open>\<^verbatim>\<open>Number.prototype.toFixed(f)\<close>: a value that is not finite prints as itself; a
  negative value prints a minus sign and then its magnitude; from \<open>10 ^ 21\<close> on the plain
  string conversion is used; otherwise the magnitude is rounded to \<open>f\<close> decimals, a tie
  going up.\<close>

fun toFixed :: "nat \<Rightarrow> jsnum \<Rightarrow> string" where
  "toFixed f (Fin q) =
     (let s = (if q < 0 then ''-'' else '''');
          x = \<bar>q\<bar>
      in if 10 ^ 21 \<le> x then s @ numToString (Fin x)
         else let n = \<lfloor>x * 10 ^ f + 1 / 2\<rfloor>;
                  m = digitsOf n;
                  m' = (if f \<noteq> 0 \<and> length m \<le> f
                        then replicate (f + 1 - length m) CHR ''0'' @ m else m)
              in if f \<noteq> 0
                 then s @ take (length m' - f) m' @ ''.'' @ drop (length m' - f) m'
                 else s @ m')"
| "toFixed f x = numToString x"

text \<open>
  String to number (\<^verbatim>\<open>Number(string)\<close>): white space is stripped at both ends, the
  empty string is zero, then a binary, octal or hexadecimal integer, or an optionally signed
  \<^verbatim>\<open>Infinity\<close> or decimal literal with optional fraction and exponent; anything else
  is \<open>NaN\<close>.
\<close>

definition trimWhiteSpace :: "string \<Rightarrow> string" where
  "trimWhiteSpace s = rev (dropWhile isWhiteSpace (rev (dropWhile isWhiteSpace s)))"

definition intOfBase :: "int \<Rightarrow> string \<Rightarrow> int option" where
  "intOfBase b ds =
     (if ds \<noteq> [] \<and> list_all (\<lambda>c. case hexVal c of Some d \<Rightarrow> d < b | None \<Rightarrow> False) ds
      then Some (foldl (\<lambda>acc c. b * acc + the (hexVal c)) 0 ds) else None)"

definition parseNonDecimal :: "string \<Rightarrow> int option" where
  "parseNonDecimal s =
     (case s of
        c0 # c1 # ds \<Rightarrow>
          if c0 \<noteq> CHR ''0'' then None
          else if c1 = CHR ''x'' \<or> c1 = CHR ''X'' then intOfBase 16 ds
          else if c1 = CHR ''o'' \<or> c1 = CHR ''O'' then intOfBase 8 ds
          else if c1 = CHR ''b'' \<or> c1 = CHR ''B'' then intOfBase 2 ds
          else None
      | _ \<Rightarrow> None)"

definition parseExponent :: "string \<Rightarrow> int option" where
  "parseExponent r =
     (case r of
        [] \<Rightarrow> Some 0
      | c # cs \<Rightarrow>
          if c = CHR ''e'' \<or> c = CHR ''E''
          then (let (sg, ds) =
                      (case cs of
                         [] \<Rightarrow> (1, [])
                       | d # ds' \<Rightarrow>
                           if d = CHR ''+'' then (1, ds')
                           else if d = CHR ''-'' then (- 1, ds') else (1, cs))
                in if ds \<noteq> [] \<and> list_all isDigit ds
                   then Some (sg * intOfDigits ds) else None)
          else None)"

definition parseUnsignedDecimal :: "string \<Rightarrow> rat option" where
  "parseUnsignedDecimal s =
     (let ip = takeWhile isDigit s;
          r1 = dropWhile isDigit s;
          (fp, r2) =
            (case r1 of
               [] \<Rightarrow> ([], [])
             | c # cs \<Rightarrow>
                 if c = CHR ''.'' then (takeWhile isDigit cs, dropWhile isDigit cs)
                 else ([], r1))
      in if ip = [] \<and> fp = [] then None
         else case parseExponent r2 of
                None \<Rightarrow> None
              | Some e \<Rightarrow> Some (of_int (intOfDigits (ip @ fp)) * pow10 (e - int (length fp))))"

definition parseSignedDecimal :: "string \<Rightarrow> jsnum" where
  "parseSignedDecimal s =
     (let (neg, u) =
            (case s of
               [] \<Rightarrow> (False, [])
             | c # cs \<Rightarrow>
                 if c = CHR ''-'' then (True, cs)
                 else if c = CHR ''+'' then (False, cs) else (False, s))
      in if u = ''Infinity'' then (if neg then NegInf else PosInf)
         else case parseUnsignedDecimal u of
                None \<Rightarrow> NaN
              | Some q \<Rightarrow> round64 (if neg then - q else q))"

definition StringToNumber :: "string \<Rightarrow> jsnum" where
  "StringToNumber str =
     (let s = trimWhiteSpace str
      in if s = [] then Fin 0
         else case parseNonDecimal s of
                Some n \<Rightarrow> round64 (of_int n)
              | None \<Rightarrow> parseSignedDecimal s)"

subsection \<open>Values and objects\<close>

text \<open>\<^verbatim>\<open>RawInputRecord = Record<string, string | number>\<close>: a field holds a string or
  a number; reading a field that is not there gives \<^verbatim>\<open>undefined\<close>.\<close>

datatype jsval = Undefined | Str string | Num jsnum

text \<open>The conversion \<^verbatim>\<open>Number(v)\<close>.\<close>

fun Number :: "jsval \<Rightarrow> jsnum" where
  "Number Undefined = NaN"
| "Number (Str s) = StringToNumber s"
| "Number (Num n) = n"

text \<open>
  A plain object is the list of its own properties in the order in which \<^verbatim>\<open>for ... in\<close>,
  \<^verbatim>\<open>Object.keys\<close> and the spread operator visit them: first the keys that are array
  indices (the canonical decimal numerals below \<open>2 ^ 32 - 1\<close>) in ascending numeric order,
  then every other key in the order of its creation.
\<close>

type_synonym obj = "(string \<times> jsval) list"

definition obj_keys :: "obj \<Rightarrow> string list" where
  "obj_keys ob = map fst ob"

definition obj_get :: "obj \<Rightarrow> string \<Rightarrow> jsval" where
  "obj_get ob k = (case map_of ob k of None \<Rightarrow> Undefined | Some v \<Rightarrow> v)"

definition arrayIndex :: "string \<Rightarrow> int option" where
  "arrayIndex k =
     (if k \<noteq> [] \<and> list_all isDigit k
      then (if digitsOf (intOfDigits k) = k \<and> intOfDigits k < 4294967295
            then Some (intOfDigits k) else None)
      else None)"

text \<open>\<open>keyBefore a b\<close>: a property with key \<open>a\<close> that exists already is visited before a
  newly created property with key \<open>b\<close>.\<close>

definition keyBefore :: "string \<Rightarrow> string \<Rightarrow> bool" where
  "keyBefore a b =
     (case arrayIndex b of
        None \<Rightarrow> True
      | Some n \<Rightarrow> (case arrayIndex a of None \<Rightarrow> False | Some m \<Rightarrow> m < n))"

fun insertKey :: "string \<Rightarrow> jsval \<Rightarrow> obj \<Rightarrow> obj" where
  "insertKey k v [] = [(k, v)]"
| "insertKey k v (p # ob) =
     (if keyBefore (fst p) k then p # insertKey k v ob else (k, v) # p # ob)"

text \<open>Defining an own property (object literals, spread): an existing key keeps its place
  and takes the new value, a new key is created.\<close>

definition obj_define :: "obj \<Rightarrow> string \<Rightarrow> jsval \<Rightarrow> obj" where
  "obj_define ob k v =
     (if k \<in> set (obj_keys ob) then map (\<lambda>p. if fst p = k then (k, v) else p) ob
      else insertKey k v ob)"

text \<open>The assignment \<^verbatim>\<open>ob[k] = v\<close> of a string or number to a plain object: the key
  \<^verbatim>\<open>__proto__\<close> reaches the inherited setter, which ignores a value that is not an
  object; every other key becomes an own property.\<close>

definition obj_assign :: "obj \<Rightarrow> string \<Rightarrow> jsval \<Rightarrow> obj" where
  "obj_assign ob k v = (if k = ''__proto__'' then ob else obj_define ob k v)"

text \<open>\<^verbatim>\<open>{ ...target, ...src }\<close>: the properties of \<open>src\<close> are defined on \<open>target\<close> in
  the order of \<open>src\<close>; and the rest pattern \<^verbatim>\<open>{ k, ...rest } = ob\<close>.\<close>

definition obj_spread :: "obj \<Rightarrow> obj \<Rightarrow> obj" where
  "obj_spread target src =
     foldl (\<lambda>acc k. obj_define acc k (obj_get src k)) target (obj_keys src)"

definition obj_rest :: "string \<Rightarrow> obj \<Rightarrow> obj" where
  "obj_rest excluded ob =
     foldl (\<lambda>acc k. obj_define acc k (obj_get ob k)) [] (filter (\<lambda>k. k \<noteq> excluded) (obj_keys ob))"

section \<open>The validator\<close>

subsection \<open>Key normalisation\<close>

text \<open>
  The body of the loop of \<^verbatim>\<open>sanitizeKeys\<close>:
  \<^verbatim>\<open>trimmedKey = key.replace(/\s+/g, "")\<close> and
  \<^verbatim>\<open>trimmedKey.charAt(0).toLowerCase() + trimmedKey.slice(1)\<close>.
\<close>

definition sanitizeKey :: "string \<Rightarrow> string" where
  "sanitizeKey key =
     (let trimmedKey = filter (\<lambda>c. \<not> isWhiteSpace c) key
      in toLowerCase (take 1 trimmedKey) @ drop 1 trimmedKey)"

text \<open>\<^verbatim>\<open>for (const key in record) sanitizeRecord[sanitizedKey] = record[key]\<close>,
  starting from the empty object.\<close>

definition sanitizeKeys :: "obj \<Rightarrow> obj" where
  "sanitizeKeys record =
     foldl (\<lambda>sanitizeRecord key. obj_assign sanitizeRecord (sanitizeKey key) (obj_get record key))
       [] (obj_keys record)"

subsection \<open>Balance check\<close>

definition validateEndBalance :: "obj \<Rightarrow> string option" where
  "validateEndBalance record =
     (let startBalance = Number (obj_get record ''startBalance'');
          mutation = Number (obj_get record ''mutation'');
          endBalance = Number (obj_get record ''endBalance'')
      in if isNaN startBalance \<or> isNaN mutation \<or> isNaN endBalance
         then Some ''Invalid number format for balance or mutation.''
         else let calculatedEndBalance = js_add startBalance mutation
              in if toFixed 2 calculatedEndBalance \<noteq> toFixed 2 endBalance
                 then Some (''Mismatching end balance: Expected: ''
                            @ numToString calculatedEndBalance
                            @ '', Received: '' @ numToString endBalance)
                 else None)"

subsection \<open>Reordering for XML\<close>

text \<open>\<^verbatim>\<open>const { reference, ...rest } = record; return { reference, ...rest };\<close>\<close>

definition reorderRecordForXml :: "obj \<Rightarrow> obj" where
  "reorderRecordForXml record =
     (let reference = obj_get record ''reference'';
          rest = obj_rest ''reference'' record
      in obj_spread (obj_define [] ''reference'' reference) rest)"

subsection \<open>Formatting the issues of the schema library\<close>

text \<open>Of an issue the code reads the path and the message; of the result of
  \<^verbatim>\<open>safeParse\<close> it reads the success flag and, on failure, the issues.\<close>

record issue =
  path :: "string list"
  message :: string

datatype safeParseResult = ParseSuccess | ParseFailure "issue list"

text \<open>\<^verbatim>\<open>validationResult.error.issues\<close>.\<close>

fun issuesOf :: "safeParseResult \<Rightarrow> issue list" where
  "issuesOf ParseSuccess = []"
| "issuesOf (ParseFailure issues) = issues"

definition formatZodErrors :: "issue list \<Rightarrow> string" where
  "formatZodErrors issues =
     join '' | '' (map (\<lambda>i. ''Field - '' @ join ''.'' (path i) @ '' Error - '' @ message i) issues)"

subsection \<open>The two passes\<close>

text \<open>
  \<^verbatim>\<open>processFile\<close> calls \<^verbatim>\<open>accountRecordSchema.safeParse\<close> of the schema library.
  The library is not part of the repository, so the function is a parameter \<open>parse\<close>
  here, and what is proved of \<open>processFile\<close> holds for every such function.

  \<open>errorRecordOf\<close> is the record that both passes push:
  \<^verbatim>\<open>{ ...arrangedRecord, errors: ... }\<close> with
  \<^verbatim>\<open>arrangedRecord = type === "xml" ? reorderRecordForXml(sanitizedRecord) : sanitizedRecord\<close>.
\<close>

definition errorRecordOf :: "string \<Rightarrow> obj \<Rightarrow> string \<Rightarrow> obj" where
  "errorRecordOf type sanitizedRecord errors =
     (let arrangedRecord =
            (if type = ''xml'' then reorderRecordForXml sanitizedRecord else sanitizedRecord)
      in obj_define (obj_spread [] arrangedRecord) ''errors'' (Str errors))"

text \<open>The first \<^verbatim>\<open>records.forEach\<close>; the accumulator is \<^verbatim>\<open>validationErrorRecords\<close>.\<close>

fun structuralPass ::
  "(obj \<Rightarrow> safeParseResult) \<Rightarrow> string \<Rightarrow> obj list \<Rightarrow> obj list \<Rightarrow> obj list" where
  "structuralPass parse type [] validationErrorRecords = validationErrorRecords"
| "structuralPass parse type (record # records) validationErrorRecords =
     (let sanitizedRecord = sanitizeKeys record
      in case parse sanitizedRecord of
           ParseSuccess \<Rightarrow> structuralPass parse type records validationErrorRecords
         | ParseFailure issues \<Rightarrow>
             structuralPass parse type records
               (validationErrorRecords
                @ [errorRecordOf type sanitizedRecord (formatZodErrors issues)]))"

text \<open>The second \<^verbatim>\<open>records.forEach\<close>; the state is the set
  \<^verbatim>\<open>uniqueReferences\<close> and the array \<^verbatim>\<open>errorRecords\<close>. Membership in a
  \<^verbatim>\<open>Set\<close> is equality of values (a string never equals a number).
  \<^verbatim>\<open>if (endBalanceError)\<close> holds for a string that is not empty.\<close>

fun consistencyPass ::
  "string \<Rightarrow> obj list \<Rightarrow> jsval set \<Rightarrow> obj list \<Rightarrow> obj list" where
  "consistencyPass type [] uniqueReferences errorRecords = errorRecords"
| "consistencyPass type (record # records) uniqueReferences errorRecords =
     (let sanitizedRecord = sanitizeKeys record;
          reference = obj_get sanitizedRecord ''reference'';
          errors = (if reference \<in> uniqueReferences then [''Duplicate record''] else []);
          uniqueReferences' =
            (if reference \<in> uniqueReferences then uniqueReferences
             else insert reference uniqueReferences);
          errors' =
            (case validateEndBalance sanitizedRecord of
               None \<Rightarrow> errors
             | Some endBalanceError \<Rightarrow>
                 if endBalanceError \<noteq> [] then errors @ [endBalanceError] else errors)
      in if length errors' > 0
         then consistencyPass type records uniqueReferences'
                (errorRecords
                 @ [errorRecordOf type sanitizedRecord (join ('' &'' @ [CHR 0x0A]) errors')])
         else consistencyPass type records uniqueReferences' errorRecords)"

definition processFile ::
  "(obj \<Rightarrow> safeParseResult) \<Rightarrow> obj list \<Rightarrow> string \<Rightarrow> obj list" where
  "processFile parse records type =
     (let validationErrorRecords = structuralPass parse type records []
      in if length validationErrorRecords = 0
         then consistencyPass type records {} []
         else validationErrorRecords)"

subsection \<open>The entry points\<close>

text \<open>
  \<^verbatim>\<open>parseCsv\<close> and \<^verbatim>\<open>parseXml\<close> hand the text to a parsing library
  (\<^verbatim>\<open>Papa.parse\<close>, \<^verbatim>\<open>XMLParser.parse\<close>), again a parameter. The CSV reader
  delivers the rows. The XML parser delivers a tree, of which the code reads
  \<^verbatim>\<open>result?.records?.record || []\<close>; it may also throw.
\<close>

definition parseCsv ::
  "(obj \<Rightarrow> safeParseResult) \<Rightarrow> (string \<Rightarrow> obj list) \<Rightarrow> string \<Rightarrow> obj list" where
  "parseCsv parse papaParse csvString = processFile parse (papaParse csvString) ''csv''"

datatype xmlValue =
    XUndefined
  | XString string
  | XNumber jsnum
  | XRecords "obj list"
  | XObject "(string \<times> xmlValue) list"

datatype jsError = ParserError string | TypeError string

text \<open>Property access \<^verbatim>\<open>v?.k\<close> for the keys \<^verbatim>\<open>records\<close> and
  \<^verbatim>\<open>record\<close>: only an object can have them.\<close>

fun xml_get :: "xmlValue \<Rightarrow> string \<Rightarrow> xmlValue" where
  "xml_get (XObject props) k = (case map_of props k of None \<Rightarrow> XUndefined | Some v \<Rightarrow> v)"
| "xml_get v k = XUndefined"

text \<open>The values that \<^verbatim>\<open>||\<close> replaces by its right operand.\<close>

fun falsy :: "xmlValue \<Rightarrow> bool" where
  "falsy XUndefined = True"
| "falsy (XString s) = (s = [])"
| "falsy (XNumber n) = (n = NaN \<or> n = Fin 0)"
| "falsy v = False"

definition parseXml ::
  "(obj \<Rightarrow> safeParseResult) \<Rightarrow> (string \<Rightarrow> jsError + xmlValue) \<Rightarrow> string
     \<Rightarrow> jsError + obj list" where
  "parseXml parse xmlParse xmlString =
     (case xmlParse xmlString of
        Inl e \<Rightarrow> Inl e
      | Inr result \<Rightarrow>
          (let found = xml_get (xml_get result ''records'') ''record''
           in if falsy found then Inr (processFile parse [] ''xml'')
              else case found of
                     XRecords dataArray \<Rightarrow> Inr (processFile parse dataArray ''xml'')
                   | _ \<Rightarrow> Inl (TypeError ''records.forEach is not a function'')))"

subsection \<open>The schema\<close>

text \<open>
  Modelled from the spec: \<^verbatim>\<open>accountRecordSchema.safeParse\<close>. The schema is declared
  in the repository,
  \<^verbatim>\<open>reference: z.coerce.number().int().nonnegative()\<close>,
  \<^verbatim>\<open>accountNumber: z.string()\<close>,
  \<^verbatim>\<open>startBalance, mutation, endBalance: z.coerce.number()\<close>,
  \<^verbatim>\<open>description: z.string()\<close>,
  but the library that interprets it is not. The specification says: a numeric field
  accepts any value coercible to a number and fails for one that is not; \<open>reference\<close> must
  in addition be an integer that is not negative; the failure lists, for every failing
  field, the path of the field and a message. The message of a failed coercion is the one
  the tests of the repository expect; the wording of the others follows the English
  messages of the library.
\<close>

definition checkNumber :: "jsval \<Rightarrow> string option" where
  "checkNumber v =
     (if isNaN (Number v) then Some ''Invalid input: expected number, received NaN'' else None)"

definition checkReference :: "jsval \<Rightarrow> string option" where
  "checkReference v =
     (let n = Number v
      in if isNaN n then Some ''Invalid input: expected number, received NaN''
         else if \<not> isInteger n then Some ''Invalid input: expected int, received number''
         else if isNegative n then Some ''Too small: expected number to be >=0''
         else None)"

fun checkString :: "jsval \<Rightarrow> string option" where
  "checkString (Str s) = None"
| "checkString Undefined = Some ''Invalid input: expected string, received undefined''"
| "checkString (Num n) =
     Some (if isNaN n then ''Invalid input: expected string, received NaN''
           else ''Invalid input: expected string, received number'')"

definition accountRecordSchema :: "(string \<times> (jsval \<Rightarrow> string option)) list" where
  "accountRecordSchema =
     [(''reference'', checkReference),
      (''accountNumber'', checkString),
      (''startBalance'', checkNumber),
      (''mutation'', checkNumber),
      (''endBalance'', checkNumber),
      (''description'', checkString)]"

definition fieldIssues :: "obj \<Rightarrow> string \<times> (jsval \<Rightarrow> string option) \<Rightarrow> issue list" where
  "fieldIssues ob f =
     (case snd f (obj_get ob (fst f)) of
        None \<Rightarrow> []
      | Some m \<Rightarrow> [\<lparr>path = [fst f], message = m\<rparr>])"

text \<open>The fields of the schema whose check fails on a record.\<close>

definition failingFields :: "obj \<Rightarrow> (string \<times> (jsval \<Rightarrow> string option)) list" where
  "failingFields ob = filter (\<lambda>f. snd f (obj_get ob (fst f)) \<noteq> None) accountRecordSchema"

definition safeParse :: "obj \<Rightarrow> safeParseResult" where
  "safeParse ob =
     (let issues = concat (map (fieldIssues ob) accountRecordSchema)
      in if issues = [] then ParseSuccess else ParseFailure issues)"

section \<open>Notions used in the statements\<close>

text \<open>An object as the language builds it: no key twice, the keys in enumeration order.\<close>

definition wellFormed :: "obj \<Rightarrow> bool" where
  "wellFormed ob = (distinct (obj_keys ob) \<and> sorted_wrt keyBefore (obj_keys ob))"

text \<open>The value under which the second pass looks a record up in the set, and the
  result of the balance check of a record as a list of messages.\<close>

definition referenceOf :: "obj \<Rightarrow> jsval" where
  "referenceOf record = obj_get (sanitizeKeys record) ''reference''"

definition balanceErrors :: "obj \<Rightarrow> string list" where
  "balanceErrors record =
     (case validateEndBalance (sanitizeKeys record) of None \<Rightarrow> [] | Some e \<Rightarrow> [e])"

text \<open>
  The specification of the duplicate detector, in its own words: the record at position
  \<open>i\<close> is a second or later occurrence when its reference is that of a record before it;
  such a record is to be flagged \<^verbatim>\<open>Duplicate record\<close>, next to the result of the
  balance check.
\<close>

definition laterOccurrence :: "obj list \<Rightarrow> nat \<Rightarrow> bool" where
  "laterOccurrence records i =
     (referenceOf (records ! i) \<in> referenceOf ` set (take i records))"

definition expectedErrors :: "obj list \<Rightarrow> nat \<Rightarrow> string list" where
  "expectedErrors records i =
     (if laterOccurrence records i then [''Duplicate record''] else [])
     @ balanceErrors (records ! i)"

text \<open>Rounding a number to two decimal places as arithmetic has it: the nearest multiple
  of one hundredth, a tie going away from zero as in \<^verbatim>\<open>toFixed\<close>.\<close>

definition roundTo2 :: "rat \<Rightarrow> rat" where
  "roundTo2 x = (if x < 0 then - of_int \<lfloor>- x * 100 + 1 / 2\<rfloor> / 100
                 else of_int \<lfloor>x * 100 + 1 / 2\<rfloor> / 100)"

section \<open>Example inputs\<close>

text \<open>The records of the test suite of the repository (\<^verbatim>\<open>utility.test.ts\<close>): three
  raw records with padded, capitalised keys, the second repeating the reference of the
  first, the third with a wrong end balance; and a record whose mutation is not a number.\<close>

definition rowValid :: obj where
  "rowValid =
     [('' Reference '', Num (Fin 1)), (''AccountNumber'', Str ''1001''),
      (''StartBalance'', Num (Fin 100)), (''Mutation'', Num (Fin 20)),
      (''EndBalance'', Num (Fin 120)), (''Description'', Str ''Valid record'')]"

definition rowDuplicate :: obj where
  "rowDuplicate =
     [('' Reference '', Num (Fin 1)), (''AccountNumber'', Str ''1002''),
      (''StartBalance'', Num (Fin 100)), (''Mutation'', Num (Fin 20)),
      (''EndBalance'', Num (Fin 120)), (''Description'', Str ''Duplicate record'')]"

definition rowWrongBalance :: obj where
  "rowWrongBalance =
     [('' Reference '', Num (Fin 3)), (''AccountNumber'', Str ''1003''),
      (''StartBalance'', Num (Fin 100)), (''Mutation'', Num (Fin 10)),
      (''EndBalance'', Num (Fin 120)), (''Description'', Str ''Wrong balance'')]"

definition rowBadFormat :: obj where
  "rowBadFormat =
     [(''reference'', Num (Fin 1)), (''accountNumber'', Str ''1001''),
      (''startBalance'', Num (Fin 100)), (''mutation'', Str ''33e''),
      (''endBalance'', Num (Fin 120)), (''description'', Str ''Valid record'')]"

text \<open>A row as the CSV and XML readers deliver it, the balances as strings, with the
  reference last as in the parsed XML record of the test suite; \<open>extra\<close> is put in front.\<close>

definition textRow :: "obj \<Rightarrow> jsval \<Rightarrow> string \<Rightarrow> string \<Rightarrow> string \<Rightarrow> obj" where
  "textRow extra reference startBalance mutation endBalance =
     extra @
     [(''accountNumber'', Str ''1001''), (''startBalance'', Str startBalance),
      (''mutation'', Str mutation), (''endBalance'', Str endBalance),
      (''description'', Str ''Valid record''), (''reference'', reference)]"

section \<open>Lemmas\<close>

subsection \<open>Keys and objects\<close>

lemma toLowerCase_char_idem: "toLowerCase_char (toLowerCase_char c) = toLowerCase_char c"
  by (auto simp add: toLowerCase_char_def Let_def)

lemma isWhiteSpace_toLowerCase_char: "isWhiteSpace (toLowerCase_char c) = isWhiteSpace c"
  by (auto simp add: toLowerCase_char_def isWhiteSpace_def Let_def)

lemma sanitizeKey_cases:
  "sanitizeKey k =
     (case filter (\<lambda>c. \<not> isWhiteSpace c) k of [] \<Rightarrow> [] | c # cs \<Rightarrow> toLowerCase_char c # cs)"
  by (simp add: sanitizeKey_def toLowerCase_def Let_def split: list.splits)

lemma sanitizeKey_no_whitespace: "c \<in> set (sanitizeKey k) \<Longrightarrow> \<not> isWhiteSpace c"
proof -
  assume c: "c \<in> set (sanitizeKey k)"
  show ?thesis
  proof (cases "filter (\<lambda>c. \<not> isWhiteSpace c) k")
    case Nil
    with c show ?thesis by (simp add: sanitizeKey_cases)
  next
    case (Cons d ds)
    have "set (filter (\<lambda>c. \<not> isWhiteSpace c) k) = {x \<in> set k. \<not> isWhiteSpace x}"
      by (rule set_filter)
    with Cons have "\<forall>x \<in> set (d # ds). \<not> isWhiteSpace x"
      by auto
    with c Cons show ?thesis
      by (auto simp add: sanitizeKey_cases isWhiteSpace_toLowerCase_char)
  qed
qed

lemma filter_no_whitespace: "\<forall>c \<in> set s. \<not> isWhiteSpace c \<Longrightarrow> filter (\<lambda>c. \<not> isWhiteSpace c) s = s"
  by (induction s) auto

lemma sanitizeKey_idem: "sanitizeKey (sanitizeKey k) = sanitizeKey k"
proof (cases "filter (\<lambda>c. \<not> isWhiteSpace c) k")
  case Nil
  then have "sanitizeKey k = []" by (simp add: sanitizeKey_cases)
  then show ?thesis by (simp add: sanitizeKey_cases)
next
  case (Cons c cs)
  then have eq: "sanitizeKey k = toLowerCase_char c # cs" by (simp add: sanitizeKey_cases)
  have "filter (\<lambda>c. \<not> isWhiteSpace c) (sanitizeKey k) = sanitizeKey k"
    by (rule filter_no_whitespace) (auto dest: sanitizeKey_no_whitespace)
  with eq have "filter (\<lambda>c. \<not> isWhiteSpace c) (toLowerCase_char c # cs) = toLowerCase_char c # cs"
    by simp
  then have "sanitizeKey (toLowerCase_char c # cs) = toLowerCase_char c # cs"
    unfolding sanitizeKey_cases [of "toLowerCase_char c # cs"]
    by (simp add: toLowerCase_char_idem)
  with eq show ?thesis by simp
qed

lemma arrayIndex_Some: "arrayIndex k = Some n \<Longrightarrow> k = digitsOf n"
  by (auto simp: arrayIndex_def split: if_splits)

lemma arrayIndex_inj: "arrayIndex a = Some n \<Longrightarrow> arrayIndex b = Some n \<Longrightarrow> a = b"
  using arrayIndex_Some by metis

lemma keyBefore_trans: "keyBefore a b \<Longrightarrow> keyBefore b c \<Longrightarrow> keyBefore a c"
  by (auto simp: keyBefore_def split: option.splits)

lemma keyBefore_total: "a \<noteq> b \<Longrightarrow> \<not> keyBefore a b \<Longrightarrow> keyBefore b a"
  by (auto simp: keyBefore_def split: option.splits dest: arrayIndex_inj)

lemma keyBefore_not_index: "arrayIndex k = None \<Longrightarrow> keyBefore a k"
  by (simp add: keyBefore_def)

lemma keys_insertKey: "fst ` set (insertKey k v ob) = insert k (fst ` set ob)"
  by (induction ob) auto

lemma length_insertKey: "length (insertKey k v ob) = Suc (length ob)"
  by (induction ob) auto

lemma map_of_insertKey:
  "k \<notin> fst ` set ob \<Longrightarrow>
   map_of (insertKey k v ob) k' = (if k' = k then Some v else map_of ob k')"
  by (induction ob) auto

lemma distinct_insertKey:
  "k \<notin> fst ` set ob \<Longrightarrow> distinct (map fst ob) \<Longrightarrow> distinct (map fst (insertKey k v ob))"
  by (induction ob) (auto simp: keys_insertKey)

lemma sorted_insertKey:
  "k \<notin> fst ` set ob \<Longrightarrow> sorted_wrt keyBefore (map fst ob)
     \<Longrightarrow> sorted_wrt keyBefore (map fst (insertKey k v ob))"
proof (induction ob)
  case Nil
  then show ?case by simp
next
  case (Cons p ob)
  show ?case
  proof (cases "keyBefore (fst p) k")
    case True
    with Cons show ?thesis by (auto simp: keys_insertKey)
  next
    case False
    with Cons.prems have kp: "keyBefore k (fst p)"
      by (auto intro: keyBefore_total)
    with Cons.prems have "\<forall>x \<in> fst ` set ob. keyBefore k x"
      by (auto intro: keyBefore_trans)
    with False kp Cons.prems show ?thesis by auto
  qed
qed

lemma insertKey_append:
  "\<forall>p \<in> set ob. keyBefore (fst p) k \<Longrightarrow> insertKey k v ob = ob @ [(k, v)]"
  by (induction ob) auto

lemma keys_map_update:
  "k \<in> fst ` set ob \<Longrightarrow> map fst (map (\<lambda>p. if fst p = k then (k, v) else p) ob) = map fst ob"
  by (induction ob) auto

lemma obj_keys_define_existing:
  "k \<in> set (obj_keys ob) \<Longrightarrow> obj_keys (obj_define ob k v) = obj_keys ob"
  by (simp add: obj_define_def obj_keys_def keys_map_update)

lemma obj_keys_define:
  "set (obj_keys (obj_define ob k v)) = insert k (set (obj_keys ob))"
proof (cases "k \<in> set (obj_keys ob)")
  case True
  then show ?thesis by (auto simp: obj_keys_define_existing)
next
  case False
  then show ?thesis by (simp add: obj_define_def obj_keys_def keys_insertKey)
qed

lemma map_of_map_update:
  "map_of (map (\<lambda>p. if fst p = k then (k, v) else p) ob) k'
     = (if k' = k \<and> k \<in> fst ` set ob then Some v else map_of ob k')"
  by (induction ob) (auto simp: rev_image_eqI)

lemma map_of_define: "map_of (obj_define ob k v) k' = (if k' = k then Some v else map_of ob k')"
  by (simp add: obj_define_def obj_keys_def map_of_map_update map_of_insertKey)

lemma obj_get_define:
  "obj_get (obj_define ob k v) k' = (if k' = k then v else obj_get ob k')"
  by (simp add: obj_get_def map_of_define)

lemma wellFormed_Nil: "wellFormed []"
  by (simp add: wellFormed_def obj_keys_def)

lemma wellFormed_define: "wellFormed ob \<Longrightarrow> wellFormed (obj_define ob k v)"
proof (cases "k \<in> set (obj_keys ob)")
  case True
  assume "wellFormed ob"
  with True show ?thesis
    by (simp add: wellFormed_def obj_keys_define_existing)
next
  case False
  assume "wellFormed ob"
  with False show ?thesis
    by (simp add: wellFormed_def obj_define_def obj_keys_def distinct_insertKey sorted_insertKey)
qed

lemma wellFormed_assign: "wellFormed ob \<Longrightarrow> wellFormed (obj_assign ob k v)"
  by (simp add: obj_assign_def wellFormed_define)

lemma obj_get_member:
  "distinct (map fst ob) \<Longrightarrow> (k, v) \<in> set ob \<Longrightarrow> obj_get ob k = v"
  by (simp add: obj_get_def)

lemma spread_prefix:
  "wellFormed ob \<Longrightarrow> ob = pre @ suf \<Longrightarrow>
   foldl (\<lambda>acc k. obj_define acc k (obj_get ob k)) pre (map fst suf) = ob"
proof (induction suf arbitrary: pre)
  case Nil
  then show ?case by simp
next
  case (Cons p suf)
  from Cons.prems have d: "distinct (map fst ob)" and s: "sorted_wrt keyBefore (map fst ob)"
    by (simp_all add: wellFormed_def obj_keys_def)
  from d Cons.prems(2) have notin: "fst p \<notin> set (obj_keys pre)"
    by (auto simp: obj_keys_def)
  from s Cons.prems(2) have before: "\<forall>q \<in> set pre. keyBefore (fst q) (fst p)"
    by (auto simp: sorted_wrt_append)
  have "(fst p, snd p) \<in> set ob" using Cons.prems(2) by simp
  with d have g: "obj_get ob (fst p) = snd p" by (rule obj_get_member)
  have step: "obj_define pre (fst p) (obj_get ob (fst p)) = pre @ [p]"
    using notin before by (simp add: obj_define_def g insertKey_append)
  have "ob = (pre @ [p]) @ suf" using Cons.prems(2) by simp
  from Cons.IH [OF Cons.prems(1) this] show ?case by (simp add: step)
qed

lemma obj_spread_wellFormed: "wellFormed ob \<Longrightarrow> obj_spread [] ob = ob"
  using spread_prefix [of ob "[]" ob] by (simp add: obj_spread_def obj_keys_def)

lemma foldl_define_wellFormed:
  "wellFormed acc \<Longrightarrow> wellFormed (foldl (\<lambda>a k. obj_define a (f k) (g k)) acc ks)"
  by (induction ks arbitrary: acc) (auto simp: wellFormed_define)

lemma foldl_assign_wellFormed:
  "wellFormed acc \<Longrightarrow> wellFormed (foldl (\<lambda>a k. obj_assign a (f k) (g k)) acc ks)"
  by (induction ks arbitrary: acc) (auto simp: wellFormed_assign)

lemma wellFormed_sanitizeKeys: "wellFormed (sanitizeKeys r)"
  by (simp add: sanitizeKeys_def foldl_assign_wellFormed wellFormed_Nil)

lemma wellFormed_spread: "wellFormed t \<Longrightarrow> wellFormed (obj_spread t s)"
  by (simp add: obj_spread_def foldl_define_wellFormed)

lemma keys_foldl_assign:
  "set (obj_keys (foldl (\<lambda>a k. obj_assign a (f k) (g k)) acc ks))
     = set (obj_keys acc) \<union> (f ` set ks - {''__proto__''})"
  by (induction ks arbitrary: acc) (auto simp: obj_assign_def obj_keys_define)

lemma keys_sanitizeKeys:
  "set (obj_keys (sanitizeKeys r)) = sanitizeKey ` set (obj_keys r) - {''__proto__''}"
  unfolding sanitizeKeys_def
  using keys_foldl_assign [of sanitizeKey "obj_get r" "[]" "obj_keys r"]
  by (simp add: obj_keys_def)

lemma sanitizeKeys_idem: "sanitizeKeys (sanitizeKeys r) = sanitizeKeys r"
proof -
  let ?s = "sanitizeKeys r"
  have fixed: "\<And>k. k \<in> set (obj_keys ?s) \<Longrightarrow> sanitizeKey k = k \<and> k \<noteq> ''__proto__''"
    by (auto simp: keys_sanitizeKeys sanitizeKey_idem)
  have "sanitizeKeys ?s
          = foldl (\<lambda>acc k. obj_define acc k (obj_get ?s k)) [] (obj_keys ?s)"
    unfolding sanitizeKeys_def [of ?s]
    by (rule foldl_cong) (auto simp: obj_assign_def dest: fixed)
  also have "\<dots> = obj_spread [] ?s" by (simp add: obj_spread_def)
  also have "\<dots> = ?s" by (rule obj_spread_wellFormed) (rule wellFormed_sanitizeKeys)
  finally show ?thesis .
qed

subsection \<open>The two passes\<close>

lemma structuralPass_eq:
  "structuralPass sp ty rs acc =
     acc @ map (\<lambda>r. errorRecordOf ty (sanitizeKeys r) (formatZodErrors (issuesOf (sp (sanitizeKeys r)))))
             (filter (\<lambda>r. sp (sanitizeKeys r) \<noteq> ParseSuccess) rs)"
  by (induction rs arbitrary: acc) (auto simp: Let_def split: safeParseResult.splits)

lemma obj_get_errorRecordOf: "obj_get (errorRecordOf ty s msg) ''errors'' = Str msg"
  by (simp add: errorRecordOf_def Let_def obj_get_define)

lemma validateEndBalance_nonempty: "validateEndBalance r = Some e \<Longrightarrow> e \<noteq> []"
  by (auto simp: validateEndBalance_def Let_def split: if_splits)




lemma consistencyPass_eq:
  "consistencyPass ty suf (referenceOf ` set pre) acc =
     acc @ map (\<lambda>i. errorRecordOf ty (sanitizeKeys ((pre @ suf) ! i))
                      (join ('' &'' @ [CHR 0x0A]) (expectedErrors (pre @ suf) i)))
             (filter (\<lambda>i. expectedErrors (pre @ suf) i \<noteq> [])
                [length pre ..< length pre + length suf])"
proof (induction suf arbitrary: pre acc)
  case Nil
  then show ?case by simp
next
  case (Cons r suf)
  let ?recs = "pre @ r # suf"
  let ?i = "length pre"
  let ?seen = "referenceOf ` set pre"
  let ?s = "sanitizeKeys r"
  let ?errors = "(if obj_get ?s ''reference'' \<in> ?seen then [''Duplicate record''] else [])"
  let ?errors' = "(case validateEndBalance ?s of None \<Rightarrow> ?errors
                   | Some e \<Rightarrow> if e \<noteq> [] then ?errors @ [e] else ?errors)"
  have nth: "?recs ! ?i = r" by simp
  have later: "laterOccurrence ?recs ?i = (obj_get ?s ''reference'' \<in> ?seen)"
    by (simp add: laterOccurrence_def referenceOf_def)
  have errs: "?errors' = expectedErrors ?recs ?i"
    using validateEndBalance_nonempty [of ?s]
    by (auto simp: expectedErrors_def balanceErrors_def later split: option.splits)
  have seen: "(if obj_get ?s ''reference'' \<in> ?seen then ?seen
               else insert (obj_get ?s ''reference'') ?seen) = referenceOf ` set (pre @ [r])"
    by (auto simp: referenceOf_def)
  have recs: "?recs = (pre @ [r]) @ suf" by simp
  have upt: "[?i ..< Suc (?i + length suf)] = ?i # [Suc ?i ..< Suc (?i + length suf)]"
    by (rule upt_conv_Cons) simp
  have step: "consistencyPass ty (r # suf) ?seen acc =
      consistencyPass ty suf (referenceOf ` set (pre @ [r]))
        (if expectedErrors ?recs ?i \<noteq> []
         then acc @ [errorRecordOf ty ?s (join ('' &'' @ [CHR 0x0A]) (expectedErrors ?recs ?i))]
         else acc)"
    unfolding consistencyPass.simps Let_def seen errs by simp
  show ?case
    unfolding step Cons.IH [of "pre @ [r]"]
    by (simp add: upt del: upt_Suc)
qed

lemma consistencyPass_all:
  "consistencyPass ty records {} [] =
     map (\<lambda>i. errorRecordOf ty (sanitizeKeys (records ! i))
                 (join ('' &'' @ [CHR 0x0A]) (expectedErrors records i)))
       (filter (\<lambda>i. expectedErrors records i \<noteq> []) [0 ..< length records])"
  using consistencyPass_eq [of ty records "[]" "[]"] by simp

lemma processFile_valid:
  "\<forall>r \<in> set records. sp (sanitizeKeys r) = ParseSuccess \<Longrightarrow>
   processFile sp records ty = consistencyPass ty records {} []"
proof -
  assume "\<forall>r \<in> set records. sp (sanitizeKeys r) = ParseSuccess"
  then have "filter (\<lambda>r. sp (sanitizeKeys r) \<noteq> ParseSuccess) records = []"
    by (simp add: filter_empty_conv)
  then show ?thesis by (simp add: processFile_def structuralPass_eq)
qed

lemma processFile_invalid:
  "\<exists>r \<in> set records. sp (sanitizeKeys r) \<noteq> ParseSuccess \<Longrightarrow>
   processFile sp records ty =
     map (\<lambda>r. errorRecordOf ty (sanitizeKeys r) (formatZodErrors (issuesOf (sp (sanitizeKeys r)))))
       (filter (\<lambda>r. sp (sanitizeKeys r) \<noteq> ParseSuccess) records)"
proof -
  assume "\<exists>r \<in> set records. sp (sanitizeKeys r) \<noteq> ParseSuccess"
  then have "filter (\<lambda>r. sp (sanitizeKeys r) \<noteq> ParseSuccess) records \<noteq> []"
    by (simp add: filter_empty_conv)
  then show ?thesis by (simp add: processFile_def structuralPass_eq)
qed

subsection \<open>Values kept, key order, schema\<close>

lemma map_of_foldl_assign:
  "map_of (foldl (\<lambda>a k. obj_assign a (f k) (g k)) acc ks) k' =
     (if k' = ''__proto__'' then map_of acc k'
      else case map_of (rev (map (\<lambda>k. (f k, g k)) ks)) k' of
             None \<Rightarrow> map_of acc k'
           | Some v \<Rightarrow> Some v)"
  by (induction ks arbitrary: acc)
     (auto simp: obj_assign_def map_of_define map_add_def split: option.splits)

lemma map_of_sanitizeKeys:
  assumes d: "distinct (obj_keys r)"
    and inj: "inj_on sanitizeKey (set (obj_keys r))"
    and np: "''__proto__'' \<notin> sanitizeKey ` set (obj_keys r)"
  shows "map_of (sanitizeKeys r) = map_of (map (\<lambda>p. (sanitizeKey (fst p), snd p)) r)"
proof
  fix k'
  let ?al = "map (\<lambda>p. (sanitizeKey (fst p), snd p)) r"
  have al: "map (\<lambda>k. (sanitizeKey k, obj_get r k)) (obj_keys r) = ?al"
    using d by (auto simp: obj_keys_def obj_get_member)
  have "map fst ?al = map sanitizeKey (obj_keys r)"
    by (simp add: obj_keys_def comp_def)
  with d inj have dal: "distinct (map fst ?al)"
    by (simp add: distinct_map)
  have rv: "map_of (rev ?al) = map_of ?al"
    using dal by (subst map_of_inject_set) (simp_all add: rev_map [symmetric])
  have none: "map_of ?al ''__proto__'' = None"
    using np by (auto simp: map_of_eq_None_iff obj_keys_def image_iff)
  have "map_of (sanitizeKeys r) k' =
          (if k' = ''__proto__'' then None else map_of (rev ?al) k')"
    unfolding sanitizeKeys_def map_of_foldl_assign al
    by (simp split: option.splits)
  then show "map_of (sanitizeKeys r) k' = map_of ?al k'"
    using none by (simp add: rv)
qed

lemma concat_fieldIssues:
  "concat (map (fieldIssues ob) fs) =
     map (\<lambda>f. \<lparr>path = [fst f], message = the (snd f (obj_get ob (fst f)))\<rparr>)
       (filter (\<lambda>f. snd f (obj_get ob (fst f)) \<noteq> None) fs)"
  by (induction fs) (auto simp: fieldIssues_def split: option.splits)

lemma safeParse_failingFields:
  "safeParse ob =
     (if failingFields ob = [] then ParseSuccess
      else ParseFailure
             (map (\<lambda>f. \<lparr>path = [fst f], message = the (snd f (obj_get ob (fst f)))\<rparr>)
                (failingFields ob)))"
  by (simp add: safeParse_def Let_def concat_fieldIssues failingFields_def)

lemma formatZodErrors_fields:
  "formatZodErrors (map (\<lambda>f. \<lparr>path = [fst f], message = m f\<rparr>) fs) =
     join '' | '' (map (\<lambda>f. ''Field - '' @ fst f @ '' Error - '' @ m f) fs)"
  by (simp add: formatZodErrors_def comp_def)

lemma checkReference_fails:
  "isNegative (Number v) \<or> \<not> isInteger (Number v) \<Longrightarrow> checkReference v \<noteq> None"
  by (cases "Number v") (auto simp: checkReference_def Let_def)

lemma map_of_rev_last:
  "map_of (rev (map (\<lambda>p. (f (fst p), snd p)) r)) k' =
     (if filter (\<lambda>q. f (fst q) = k') r = [] then None
      else Some (snd (last (filter (\<lambda>q. f (fst q) = k') r))))"
  by (induction r) (auto simp: map_add_def split: option.splits)

lemma map_of_sanitizeKeys_last:
  assumes d: "distinct (obj_keys r)"
    and np: "k' \<noteq> ''__proto__''"
  shows "map_of (sanitizeKeys r) k' =
     (if filter (\<lambda>q. sanitizeKey (fst q) = k') r = [] then None
      else Some (snd (last (filter (\<lambda>q. sanitizeKey (fst q) = k') r))))"
proof -
  let ?al = "map (\<lambda>p. (sanitizeKey (fst p), snd p)) r"
  have al: "map (\<lambda>k. (sanitizeKey k, obj_get r k)) (obj_keys r) = ?al"
    using d by (auto simp: obj_keys_def obj_get_member)
  have "map_of (sanitizeKeys r) k' = map_of (rev ?al) k'"
    unfolding sanitizeKeys_def map_of_foldl_assign al
    using np by (simp split: option.splits)
  then show ?thesis by (simp only: map_of_rev_last)
qed

subsection \<open>Rounding to two decimals\<close>

lemma digit_char:
  "0 \<le> d \<Longrightarrow> d < 10 \<Longrightarrow> isDigit (char_of (48 + d)) \<and> digitVal (char_of (48 + d)) = d"
  by (simp add: isDigit_def digitVal_def)

lemma intOfDigits_snoc: "intOfDigits (ds @ [c]) = 10 * intOfDigits ds + digitVal c"
  by (simp add: intOfDigits_def)

lemma digitsOf_props:
  "0 \<le> n \<Longrightarrow> digitsOf n \<noteq> [] \<and> list_all isDigit (digitsOf n) \<and> intOfDigits (digitsOf n) = n"
proof (induction n rule: digitsOf.induct)
  case (1 n)
  show ?case
  proof (cases "n < 10")
    case True
    with 1(2) digit_char [of n] show ?thesis
      by (simp add: digitsOf.simps [of n] intOfDigits_def)
  next
    case False
    with 1 have ih: "digitsOf (n div 10) \<noteq> [] \<and> list_all isDigit (digitsOf (n div 10))
        \<and> intOfDigits (digitsOf (n div 10)) = n div 10"
      by simp
    have "0 \<le> n mod 10" "n mod 10 < 10" by simp_all
    with digit_char [of "n mod 10"]
    have d: "isDigit (char_of (48 + n mod 10))" "digitVal (char_of (48 + n mod 10)) = n mod 10"
      by simp_all
    from False ih d show ?thesis
      by (simp add: digitsOf.simps [of n] intOfDigits_snoc)
  qed
qed

lemma intOfDigits_zeros: "intOfDigits (replicate k CHR ''0'' @ ds) = intOfDigits ds"
  by (induction k) (simp_all add: intOfDigits_def digitVal_def)

text \<open>The digits and the decimal point that \<^verbatim>\<open>toFixed(2)\<close> prints after the sign.\<close>

lemma toFixed_2_small:
  "\<bar>q\<bar> < 10 ^ 21 \<Longrightarrow>
   toFixed 2 (Fin q) =
     (if q < 0 then ''-'' else '''') @
     (let m = digitsOf \<lfloor>\<bar>q\<bar> * 100 + 1 / 2\<rfloor>;
          m' = (if length m \<le> 2 then replicate (3 - length m) CHR ''0'' @ m else m)
      in take (length m' - 2) m' @ ''.'' @ drop (length m' - 2) m')"
  by (simp add: Let_def)

lemma padded_props:
  assumes "0 \<le> n"
  defines "m \<equiv> digitsOf n"
  defines "m' \<equiv> (if length m \<le> 2 then replicate (3 - length m) CHR ''0'' @ m else m)"
  shows "3 \<le> length m'" and "list_all isDigit m'" and "intOfDigits m' = n"
proof -
  from digitsOf_props [OF assms(1)]
  have p: "m \<noteq> []" "list_all isDigit m" "intOfDigits m = n" by (simp_all add: m_def)
  show "3 \<le> length m'" by (simp add: m'_def)
  have z: "isDigit CHR ''0''" by (simp add: isDigit_def)
  from p(2) z show "list_all isDigit m'" by (simp add: m'_def list_all_iff)
  from p(3) show "intOfDigits m' = n" by (simp add: m'_def intOfDigits_zeros)
qed

lemma fixed_body_decode:
  assumes "3 \<le> length m'" and "list_all isDigit m'"
  shows "filter isDigit (take (length m' - 2) m' @ ''.'' @ drop (length m' - 2) m') = m'"
    and "isDigit (hd (take (length m' - 2) m' @ ''.'' @ drop (length m' - 2) m'))"
proof -
  have dot: "\<not> isDigit CHR ''.''" by (simp add: isDigit_def)
  from assms(2) have t: "filter isDigit (take (length m' - 2) m') = take (length m' - 2) m'"
    and d: "filter isDigit (drop (length m' - 2) m') = drop (length m' - 2) m'"
    by (auto simp: list_all_iff filter_id_conv dest: in_set_takeD in_set_dropD)
  show "filter isDigit (take (length m' - 2) m' @ ''.'' @ drop (length m' - 2) m') = m'"
    by (simp add: t d dot)
  from assms(1) have ne: "take (length m' - 2) m' \<noteq> []" by auto
  then have "hd (take (length m' - 2) m' @ ''.'' @ drop (length m' - 2) m') = hd m'"
    by (cases m') (auto simp: take_Cons')
  moreover from assms have "isDigit (hd m')" by (cases m') auto
  ultimately show "isDigit (hd (take (length m' - 2) m' @ ''.'' @ drop (length m' - 2) m'))"
    by simp
qed

lemma toFixed_2_decode:
  assumes "\<bar>q\<bar> < 10 ^ 21"
  shows "intOfDigits (filter isDigit (toFixed 2 (Fin q))) = \<lfloor>\<bar>q\<bar> * 100 + 1 / 2\<rfloor>"
    and "(hd (toFixed 2 (Fin q)) = CHR ''-'') = (q < 0)"
proof -
  let ?n = "\<lfloor>\<bar>q\<bar> * 100 + 1 / 2\<rfloor>"
  let ?m = "digitsOf ?n"
  let ?m' = "(if length ?m \<le> 2 then replicate (3 - length ?m) CHR ''0'' @ ?m else ?m)"
  let ?body = "take (length ?m' - 2) ?m' @ ''.'' @ drop (length ?m' - 2) ?m'"
  have n: "0 \<le> ?n" by simp
  note p = padded_props [OF n]
  note b = fixed_body_decode [OF p(1) p(2)]
  have minus: "\<not> isDigit CHR ''-''" by (simp add: isDigit_def)
  have tf: "toFixed 2 (Fin q) = (if q < 0 then ''-'' else '''') @ ?body"
    using toFixed_2_small [OF assms] by (simp add: Let_def)
  show "intOfDigits (filter isDigit (toFixed 2 (Fin q))) = ?n"
    unfolding tf using b(1) p(3) minus by simp
  show "(hd (toFixed 2 (Fin q)) = CHR ''-'') = (q < 0)"
    unfolding tf using b(2) minus by auto
qed

lemma toFixed_2_eq_iff:
  assumes "\<bar>x\<bar> < 10 ^ 21" and "\<bar>y\<bar> < 10 ^ 21"
  shows "(toFixed 2 (Fin x) = toFixed 2 (Fin y)) =
         ((x < 0) = (y < 0) \<and> \<lfloor>\<bar>x\<bar> * 100 + 1 / 2\<rfloor> = \<lfloor>\<bar>y\<bar> * 100 + 1 / 2\<rfloor>)"
proof
  assume e: "toFixed 2 (Fin x) = toFixed 2 (Fin y)"
  from toFixed_2_decode [OF assms(1)] toFixed_2_decode [OF assms(2)] e
  show "(x < 0) = (y < 0) \<and> \<lfloor>\<bar>x\<bar> * 100 + 1 / 2\<rfloor> = \<lfloor>\<bar>y\<bar> * 100 + 1 / 2\<rfloor>"
    by metis
next
  assume "(x < 0) = (y < 0) \<and> \<lfloor>\<bar>x\<bar> * 100 + 1 / 2\<rfloor> = \<lfloor>\<bar>y\<bar> * 100 + 1 / 2\<rfloor>"
  then show "toFixed 2 (Fin x) = toFixed 2 (Fin y)"
    using toFixed_2_small [OF assms(1)] toFixed_2_small [OF assms(2)] by simp
qed

lemma roundTo2_eq_iff:
  assumes "(x < 0) = (y < 0)"
  shows "(roundTo2 x = roundTo2 y) = (\<lfloor>\<bar>x\<bar> * 100 + 1 / 2\<rfloor> = \<lfloor>\<bar>y\<bar> * 100 + 1 / 2\<rfloor>)"
  using assms by (auto simp: roundTo2_def abs_if)

lemma toFixed_2_eq_round:
  assumes "\<bar>x\<bar> < 10 ^ 21" and "\<bar>y\<bar> < 10 ^ 21"
  shows "(toFixed 2 (Fin x) = toFixed 2 (Fin y)) =
         (roundTo2 x = roundTo2 y \<and> (x < 0) = (y < 0))"
  using toFixed_2_eq_iff [OF assms] roundTo2_eq_iff [of x y] by blast

section \<open>The claims\<close>

text \<open>
  C1. If at least one record of the input fails structural validation, the report of
  \<open>processFile\<close> is exactly the structurally invalid records, in input order, each with
  the formatted structural issues as its \<open>errors\<close> field. The second pass does not
  contribute: no entry carries a duplicate or balance error, also not for the valid
  records of the same input. This holds whatever the schema validator \<open>parse\<close> is.
\<close>

theorem processFile_structural_failures:
  assumes "\<exists>r \<in> set records. parse (sanitizeKeys r) \<noteq> ParseSuccess"
  shows "processFile parse records ty =
           map (\<lambda>r. errorRecordOf ty (sanitizeKeys r)
                       (formatZodErrors (issuesOf (parse (sanitizeKeys r)))))
             (filter (\<lambda>r. parse (sanitizeKeys r) \<noteq> ParseSuccess) records)
         \<and> map (\<lambda>e. obj_get e ''errors'') (processFile parse records ty) =
           map (\<lambda>r. Str (formatZodErrors (issuesOf (parse (sanitizeKeys r)))))
             (filter (\<lambda>r. parse (sanitizeKeys r) \<noteq> ParseSuccess) records)"
  using assms by (simp add: processFile_invalid comp_def obj_get_errorRecordOf)

theorem processFile_structural_failures_witness:
  "safeParse (sanitizeKeys rowBadFormat) \<noteq> ParseSuccess
   \<and> processFile safeParse [rowValid, rowBadFormat, rowDuplicate] ''csv'' =
       [[(''reference'', Num (Fin 1)), (''accountNumber'', Str ''1001''),
         (''startBalance'', Num (Fin 100)), (''mutation'', Str ''33e''),
         (''endBalance'', Num (Fin 120)), (''description'', Str ''Valid record''),
         (''errors'',
          Str ''Field - mutation Error - Invalid input: expected number, received NaN'')]]
   \<and> map (\<lambda>e. obj_get e ''errors'')
         (processFile safeParse [rowValid, rowBadFormat, rowDuplicate] ''csv'') =
       map (\<lambda>r. Str (formatZodErrors (issuesOf (safeParse (sanitizeKeys r)))))
         (filter (\<lambda>r. safeParse (sanitizeKeys r) \<noteq> ParseSuccess)
            [rowValid, rowBadFormat, rowDuplicate])"
proof -
  have bad: "safeParse (sanitizeKeys rowBadFormat) \<noteq> ParseSuccess" by code_simp
  then have "\<exists>r \<in> set [rowValid, rowBadFormat, rowDuplicate].
      safeParse (sanitizeKeys r) \<noteq> ParseSuccess" by simp
  note c = processFile_structural_failures [OF this, of "''csv''", THEN conjunct2]
  have ev: "processFile safeParse [rowValid, rowBadFormat, rowDuplicate] ''csv'' =
       [[(''reference'', Num (Fin 1)), (''accountNumber'', Str ''1001''),
         (''startBalance'', Num (Fin 100)), (''mutation'', Str ''33e''),
         (''endBalance'', Num (Fin 120)), (''description'', Str ''Valid record''),
         (''errors'',
          Str ''Field - mutation Error - Invalid input: expected number, received NaN'')]]"
    by code_simp
  show ?thesis by (rule conjI [OF bad conjI [OF ev c]])
qed



text \<open>
  C3 (as stated) fails. The comparison is not one of numbers rounded to two decimals: the
  code compares the two strings that \<^verbatim>\<open>toFixed(2)\<close> prints, and a negative sum that
  rounds to zero prints as \<^verbatim>\<open>-0.00\<close>. For a valid record with start balance 0,
  mutation -0.00390625 and end balance 0 both sides round to zero, and an error is returned.
\<close>

theorem validateEndBalance_negative_zero_counterexample:
  "safeParse (textRow [] (Str ''1'') ''0'' ''-0.00390625'' ''0'') = ParseSuccess
   \<and> Number (Str ''0'') = Fin 0
   \<and> Number (Str ''-0.00390625'') = Fin (- 1 / 256)
   \<and> js_add (Fin 0) (Fin (- 1 / 256)) = Fin (- 1 / 256)
   \<and> roundTo2 (- 1 / 256) = roundTo2 0
   \<and> toFixed 2 (Fin (- 1 / 256)) = ''-0.00''
   \<and> toFixed 2 (Fin 0) = ''0.00''
   \<and> validateEndBalance (textRow [] (Str ''1'') ''0'' ''-0.00390625'' ''0'') =
       Some ''Mismatching end balance: Expected: -0.00390625, Received: 0''"
proof -
  have 1: "safeParse (textRow [] (Str ''1'') ''0'' ''-0.00390625'' ''0'') = ParseSuccess"
    by code_simp
  have 2: "Number (Str ''0'') = Fin 0" by code_simp
  have 3: "Number (Str ''-0.00390625'') = Fin (- 1 / 256)" by code_simp
  have 4: "js_add (Fin 0) (Fin (- 1 / 256)) = Fin (- 1 / 256)" by code_simp
  have 5: "roundTo2 (- 1 / 256) = roundTo2 0" by code_simp
  have 6: "toFixed 2 (Fin (- 1 / 256)) = ''-0.00''" by code_simp
  have 7: "toFixed 2 (Fin 0) = ''0.00''" by code_simp
  have 8: "validateEndBalance (textRow [] (Str ''1'') ''0'' ''-0.00390625'' ''0'') =
       Some ''Mismatching end balance: Expected: -0.00390625, Received: 0''"
    by code_simp
  from 1 2 3 4 5 6 7 8 show ?thesis by blast
qed

text \<open>
  C3 (amended). For every record whose three balance fields coerce to finite numbers,
  \<open>validateEndBalance\<close> returns no error exactly when \<^verbatim>\<open>toFixed(2)\<close> prints the computed
  sum and the end balance as the same string, and otherwise the message
  \<^verbatim>\<open>Mismatching end balance: Expected: <sum>, Received: <endBalance>\<close> with the unrounded
  sum and the end balance converted to strings. Where the sum is finite and both are below
  \<open>10 ^ 21\<close> in magnitude, the strings are the same exactly when the two numbers round to
  the same value of two decimals and are both negative or both not negative.
\<close>

theorem validateEndBalance_compares_formatted:
  assumes "Number (obj_get record ''startBalance'') = Fin a"
    and "Number (obj_get record ''mutation'') = Fin b"
    and "Number (obj_get record ''endBalance'') = Fin c"
  shows "validateEndBalance record =
           (if toFixed 2 (js_add (Fin a) (Fin b)) = toFixed 2 (Fin c) then None
            else Some (''Mismatching end balance: Expected: ''
                       @ numToString (js_add (Fin a) (Fin b))
                       @ '', Received: '' @ numToString (Fin c)))
         \<and> (\<forall>s. js_add (Fin a) (Fin b) = Fin s \<and> \<bar>s\<bar> < 10 ^ 21 \<and> \<bar>c\<bar> < 10 ^ 21 \<longrightarrow>
               (validateEndBalance record = None) =
               (roundTo2 s = roundTo2 c \<and> (s < 0) = (c < 0)))"
proof (intro conjI allI impI)
  show v: "validateEndBalance record =
           (if toFixed 2 (js_add (Fin a) (Fin b)) = toFixed 2 (Fin c) then None
            else Some (''Mismatching end balance: Expected: ''
                       @ numToString (js_add (Fin a) (Fin b))
                       @ '', Received: '' @ numToString (Fin c)))"
    using assms by (simp add: validateEndBalance_def)
  fix s
  assume s: "js_add (Fin a) (Fin b) = Fin s \<and> \<bar>s\<bar> < 10 ^ 21 \<and> \<bar>c\<bar> < 10 ^ 21"
  then have "(toFixed 2 (Fin s) = toFixed 2 (Fin c)) =
             (roundTo2 s = roundTo2 c \<and> (s < 0) = (c < 0))"
    by (intro toFixed_2_eq_round) simp_all
  with s show "(validateEndBalance record = None) =
               (roundTo2 s = roundTo2 c \<and> (s < 0) = (c < 0))"
    unfolding v by simp
qed

theorem validateEndBalance_compares_formatted_witness:
  "Number (obj_get (sanitizeKeys rowWrongBalance) ''startBalance'') = Fin 100
   \<and> Number (obj_get (sanitizeKeys rowWrongBalance) ''mutation'') = Fin 10
   \<and> Number (obj_get (sanitizeKeys rowWrongBalance) ''endBalance'') = Fin 120
   \<and> toFixed 2 (js_add (Fin 100) (Fin 10)) = ''110.00''
   \<and> toFixed 2 (Fin 120) = ''120.00''
   \<and> validateEndBalance (sanitizeKeys rowWrongBalance) =
       Some ''Mismatching end balance: Expected: 110, Received: 120''
   \<and> js_add (Fin 100) (Fin 10) = Fin 110
   \<and> roundTo2 110 \<noteq> roundTo2 120
   \<and> (validateEndBalance (sanitizeKeys rowWrongBalance) = None) =
       (roundTo2 110 = roundTo2 120 \<and> ((110 :: rat) < 0) = ((120 :: rat) < 0))"
proof -
  have a: "Number (obj_get (sanitizeKeys rowWrongBalance) ''startBalance'') = Fin 100"
    by code_simp
  have b: "Number (obj_get (sanitizeKeys rowWrongBalance) ''mutation'') = Fin 10"
    by code_simp
  have c: "Number (obj_get (sanitizeKeys rowWrongBalance) ''endBalance'') = Fin 120"
    by code_simp
  have f1: "toFixed 2 (js_add (Fin 100) (Fin 10)) = ''110.00''" by code_simp
  have f2: "toFixed 2 (Fin 120) = ''120.00''" by code_simp
  have s: "''Mismatching end balance: Expected: '' @ numToString (js_add (Fin 100) (Fin 10))
            @ '', Received: '' @ numToString (Fin 120) =
           ''Mismatching end balance: Expected: 110, Received: 120''"
    by code_simp
  note t = validateEndBalance_compares_formatted [OF a b c]
  have v: "validateEndBalance (sanitizeKeys rowWrongBalance) =
       Some ''Mismatching end balance: Expected: 110, Received: 120''"
    unfolding t [THEN conjunct1] f1 f2 s by simp
  have j: "js_add (Fin 100) (Fin 10) = Fin 110" by code_simp
  have r: "roundTo2 110 \<noteq> roundTo2 120" by code_simp
  have "js_add (Fin 100) (Fin 10) = Fin 110 \<and> \<bar>110 :: rat\<bar> < 10 ^ 21 \<and> \<bar>120 :: rat\<bar> < 10 ^ 21"
    using j by simp
  with t [THEN conjunct2, THEN spec, of 110]
  have e: "(validateEndBalance (sanitizeKeys rowWrongBalance) = None) =
       (roundTo2 110 = roundTo2 120 \<and> ((110 :: rat) < 0) = ((120 :: rat) < 0))"
    by (rule mp)
  show ?thesis
    by (rule conjI [OF a conjI [OF b conjI [OF c conjI [OF f1 conjI [OF f2 conjI [OF v conjI [OF j conjI [OF r e]]]]]]]])
qed

text \<open>
  C4 (as stated) fails. The guard of \<open>validateEndBalance\<close> is \<^verbatim>\<open>Number.isNaN\<close>, so a value that is
  infinite passes it and reaches the comparison: with start and end balance
  \<^verbatim>\<open>Infinity\<close> no error is returned at all, and with a finite end balance the mismatch
  message is.
\<close>

theorem validateEndBalance_infinity_counterexample:
  "\<not> isFinite (Number (Str ''Infinity''))
   \<and> validateEndBalance
        [(''startBalance'', Str ''Infinity''), (''mutation'', Str ''0''),
         (''endBalance'', Str ''Infinity'')] = None
   \<and> validateEndBalance
        [(''startBalance'', Str ''Infinity''), (''mutation'', Str ''0''),
         (''endBalance'', Str ''1'')] =
       Some ''Mismatching end balance: Expected: Infinity, Received: 1''"
proof -
  have 1: "\<not> isFinite (Number (Str ''Infinity''))" by code_simp
  have 2: "validateEndBalance
        [(''startBalance'', Str ''Infinity''), (''mutation'', Str ''0''),
         (''endBalance'', Str ''Infinity'')] = None" by code_simp
  have 3: "validateEndBalance
        [(''startBalance'', Str ''Infinity''), (''mutation'', Str ''0''),
         (''endBalance'', Str ''1'')] =
       Some ''Mismatching end balance: Expected: Infinity, Received: 1''" by code_simp
  from 1 2 3 show ?thesis by blast
qed

text \<open>
  C4 (amended). \<open>validateEndBalance\<close> returns
  \<^verbatim>\<open>Invalid number format for balance or mutation.\<close> (with the full stop) exactly when one
  of the three fields coerces to \<open>NaN\<close>; then no comparison takes place, and in every other
  case no \<open>NaN\<close> input reaches it.
\<close>

theorem validateEndBalance_invalid_number:
  "(validateEndBalance record = Some ''Invalid number format for balance or mutation.'') =
   (isNaN (Number (obj_get record ''startBalance''))
    \<or> isNaN (Number (obj_get record ''mutation''))
    \<or> isNaN (Number (obj_get record ''endBalance'')))"
  by (simp add: validateEndBalance_def Let_def)

theorem validateEndBalance_invalid_number_witness:
  "isNaN (Number (obj_get rowBadFormat ''mutation''))
   \<and> validateEndBalance rowBadFormat = Some ''Invalid number format for balance or mutation.''"
proof -
  have n: "isNaN (Number (obj_get rowBadFormat ''mutation''))" by code_simp
  then have "isNaN (Number (obj_get rowBadFormat ''startBalance''))
    \<or> isNaN (Number (obj_get rowBadFormat ''mutation''))
    \<or> isNaN (Number (obj_get rowBadFormat ''endBalance''))" by simp
  with validateEndBalance_invalid_number [of rowBadFormat]
  have "validateEndBalance rowBadFormat = Some ''Invalid number format for balance or mutation.''"
    by (rule iffD2)
  with n show ?thesis by (rule conjI)
qed

text \<open>
  C5 (as stated) fails. Not every key is mapped: the assignment
  \<^verbatim>\<open>sanitizeRecord[sanitizedKey] = record[key]\<close> with a key whose normalised form is
  \<^verbatim>\<open>__proto__\<close> reaches the setter every object inherits and creates no property. The
  raw field map with the one key \<^verbatim>\<open>"__proto__ "\<close> is mapped to the empty object, which
  has no key for it.
\<close>

theorem sanitizeKeys_proto_key_counterexample:
  "''__proto__ '' \<in> set (obj_keys [(''__proto__ '', Str ''1'')])
   \<and> sanitizeKey ''__proto__ '' = ''__proto__''
   \<and> sanitizeKey ''__proto__ '' \<notin> set (obj_keys (sanitizeKeys [(''__proto__ '', Str ''1'')]))
   \<and> sanitizeKeys [(''__proto__ '', Str ''1'')] = []"
proof -
  have 1: "sanitizeKey ''__proto__ '' = ''__proto__''" by code_simp
  have 2: "sanitizeKeys [(''__proto__ '', Str ''1'')] = []" by code_simp
  show ?thesis unfolding 1 2 by (simp add: obj_keys_def)
qed

text \<open>
  C5 (amended). The normalised form of a key is the key with all white space removed and
  the first remaining character in lower case, the rest unchanged: it has no white space,
  normalising it again changes nothing, \<^verbatim>\<open>" Reference "\<close> becomes \<^verbatim>\<open>reference\<close> and
  \<^verbatim>\<open>AccountNumber\<close> becomes \<^verbatim>\<open>accountNumber\<close>. \<open>sanitizeKeys\<close> maps every key whose
  normalised form is not \<^verbatim>\<open>__proto__\<close> to its normalised form: the normalised form of
  every such key of the input is a key of the result, and every key of the result is the
  normalised form of a key of the input. Applying \<open>sanitizeKeys\<close> twice to any raw field
  map gives the same object as applying it once.
\<close>

theorem sanitizeKeys_normalises_keys:
  "sanitizeKey k =
     (case filter (\<lambda>c. \<not> isWhiteSpace c) k of [] \<Rightarrow> [] | c # cs \<Rightarrow> toLowerCase_char c # cs)
   \<and> (\<forall>c \<in> set (sanitizeKey k). \<not> isWhiteSpace c)
   \<and> sanitizeKey (sanitizeKey k) = sanitizeKey k
   \<and> sanitizeKey '' Reference '' = ''reference''
   \<and> sanitizeKey ''AccountNumber'' = ''accountNumber''
   \<and> (\<forall>k \<in> set (obj_keys r). sanitizeKey k \<noteq> ''__proto__'' \<longrightarrow>
         sanitizeKey k \<in> set (obj_keys (sanitizeKeys r)))
   \<and> (\<forall>k' \<in> set (obj_keys (sanitizeKeys r)). \<exists>k \<in> set (obj_keys r). k' = sanitizeKey k)
   \<and> sanitizeKeys (sanitizeKeys r) = sanitizeKeys r"
proof -
  have 1: "sanitizeKey '' Reference '' = ''reference''" by code_simp
  have 2: "sanitizeKey ''AccountNumber'' = ''accountNumber''" by code_simp
  have 3: "\<forall>k' \<in> set (obj_keys (sanitizeKeys r)). \<exists>k \<in> set (obj_keys r). k' = sanitizeKey k"
    by (auto simp: keys_sanitizeKeys)
  have 4: "\<forall>k \<in> set (obj_keys r). sanitizeKey k \<noteq> ''__proto__'' \<longrightarrow>
         sanitizeKey k \<in> set (obj_keys (sanitizeKeys r))"
    by (simp add: keys_sanitizeKeys)
  from 1 2 3 4 show ?thesis
    using sanitizeKey_cases [of k] sanitizeKey_no_whitespace [of _ k] sanitizeKey_idem [of k]
      sanitizeKeys_idem [of r]
    by blast
qed

theorem sanitizeKeys_normalises_keys_witness:
  "'' Reference '' \<in> set (obj_keys rowValid)
   \<and> sanitizeKey '' Reference '' \<noteq> ''__proto__''
   \<and> sanitizeKey '' Reference '' \<in> set (obj_keys (sanitizeKeys rowValid))
   \<and> sanitizeKeys rowValid =
     [(''reference'', Num (Fin 1)), (''accountNumber'', Str ''1001''),
      (''startBalance'', Num (Fin 100)), (''mutation'', Num (Fin 20)),
      (''endBalance'', Num (Fin 120)), (''description'', Str ''Valid record'')]
   \<and> sanitizeKeys (sanitizeKeys rowValid) =
     [(''reference'', Num (Fin 1)), (''accountNumber'', Str ''1001''),
      (''startBalance'', Num (Fin 100)), (''mutation'', Num (Fin 20)),
      (''endBalance'', Num (Fin 120)), (''description'', Str ''Valid record'')]
   \<and> sanitizeKey (sanitizeKey '' Start Balance '') = ''startBalance''"
proof -
  have ev: "sanitizeKeys rowValid =
     [(''reference'', Num (Fin 1)), (''accountNumber'', Str ''1001''),
      (''startBalance'', Num (Fin 100)), (''mutation'', Num (Fin 20)),
      (''endBalance'', Num (Fin 120)), (''description'', Str ''Valid record'')]"
    by code_simp
  have k: "sanitizeKey '' Start Balance '' = ''startBalance''" by code_simp
  have m: "'' Reference '' \<in> set (obj_keys rowValid)" by (simp add: rowValid_def obj_keys_def)
  have n: "sanitizeKey '' Reference '' \<noteq> ''__proto__''" by code_simp
  note t = sanitizeKeys_normalises_keys [of "'' Start Balance ''" rowValid]
  from t have "\<forall>k \<in> set (obj_keys rowValid). sanitizeKey k \<noteq> ''__proto__'' \<longrightarrow>
         sanitizeKey k \<in> set (obj_keys (sanitizeKeys rowValid))"
    by blast
  from bspec [OF this m] n
  have i: "sanitizeKey '' Reference '' \<in> set (obj_keys (sanitizeKeys rowValid))" by (rule mp)
  from t have d: "sanitizeKeys (sanitizeKeys rowValid) = sanitizeKeys rowValid" by blast
  from t have "sanitizeKey (sanitizeKey '' Start Balance '') = sanitizeKey '' Start Balance ''"
    by blast
  then have kk: "sanitizeKey (sanitizeKey '' Start Balance '') = ''startBalance''" by (simp only: k)
  from d have dd: "sanitizeKeys (sanitizeKeys rowValid) =
     [(''reference'', Num (Fin 1)), (''accountNumber'', Str ''1001''),
      (''startBalance'', Num (Fin 100)), (''mutation'', Num (Fin 20)),
      (''endBalance'', Num (Fin 120)), (''description'', Str ''Valid record'')]"
    by (simp only: ev)
  show ?thesis by (rule conjI [OF m conjI [OF n conjI [OF i conjI [OF ev conjI [OF dd kk]]]]])
qed

text \<open>
  C6 (as stated) fails. Two keys of the input that normalise to the same key share one entry
  of the result, which holds the value of the later one: the value of the earlier one is
  dropped, and with the two keys in the other order it is the other value that is dropped.
  (A key that normalises to \<^verbatim>\<open>__proto__\<close> gets no entry at all.)
\<close>

theorem sanitizeKeys_drops_value_counterexample:
  "Str ''1'' \<in> snd ` set [(''Reference'', Str ''1''), ('' reference'', Str ''2'')]
   \<and> Str ''1'' \<notin> snd ` set (sanitizeKeys [(''Reference'', Str ''1''), ('' reference'', Str ''2'')])
   \<and> sanitizeKeys [(''Reference'', Str ''1''), ('' reference'', Str ''2'')] =
       [(''reference'', Str ''2'')]
   \<and> sanitizeKeys [('' reference'', Str ''2''), (''Reference'', Str ''1'')] =
       [(''reference'', Str ''1'')]
   \<and> sanitizeKeys [(''__proto__ '', Str ''1'')] = []"
proof -
  have 1: "sanitizeKeys [(''Reference'', Str ''1''), ('' reference'', Str ''2'')] =
       [(''reference'', Str ''2'')]" by code_simp
  have 2: "sanitizeKeys [(''__proto__ '', Str ''1'')] = []" by code_simp
  have 3: "sanitizeKeys [('' reference'', Str ''2''), (''Reference'', Str ''1'')] =
       [(''reference'', Str ''1'')]" by code_simp
  show ?thesis unfolding 1 2 3 by simp
qed

text \<open>
  C6 (amended). For every raw field map, \<open>sanitizeKeys\<close> changes only the keys. The result
  has one entry for each normalised key, and every key of the result is the normalised form
  of a key of the input. An entry of the input whose key does not normalise to
  \<^verbatim>\<open>__proto__\<close> is found in the result under its normalised key, where the value is that
  of the key visited last among the keys of the input with this normalised form: its own
  value, unless a later key collides with it. When no two keys normalise to the same key
  and none to \<^verbatim>\<open>__proto__\<close>, the result has one entry per entry of the input, every
  value of the input is found under its normalised key, and as a map the result does not
  depend on the order in which the keys of the input are visited.
\<close>

theorem sanitizeKeys_keeps_values:
  assumes "distinct (obj_keys r)"
  shows "distinct (obj_keys (sanitizeKeys r))
         \<and> (\<forall>k' \<in> set (obj_keys (sanitizeKeys r)). \<exists>k \<in> set (obj_keys r). k' = sanitizeKey k)
         \<and> (\<forall>p \<in> set r. sanitizeKey (fst p) \<noteq> ''__proto__'' \<longrightarrow>
               sanitizeKey (fst p) \<in> set (obj_keys (sanitizeKeys r))
               \<and> obj_get (sanitizeKeys r) (sanitizeKey (fst p)) =
                   snd (last (filter (\<lambda>q. sanitizeKey (fst q) = sanitizeKey (fst p)) r)))
         \<and> (inj_on sanitizeKey (set (obj_keys r))
              \<and> ''__proto__'' \<notin> sanitizeKey ` set (obj_keys r) \<longrightarrow>
            length (sanitizeKeys r) = length r
            \<and> (\<forall>p \<in> set r. obj_get (sanitizeKeys r) (sanitizeKey (fst p)) = snd p)
            \<and> (\<forall>r'. set r' = set r \<and> distinct (obj_keys r') \<longrightarrow>
                  map_of (sanitizeKeys r') = map_of (sanitizeKeys r)))"
proof (intro conjI ballI allI impI; (elim conjE)?)
  show "distinct (obj_keys (sanitizeKeys r))"
    using wellFormed_sanitizeKeys [of r] by (simp add: wellFormed_def)
next
  fix k'
  assume "k' \<in> set (obj_keys (sanitizeKeys r))"
  then show "\<exists>k \<in> set (obj_keys r). k' = sanitizeKey k"
    by (auto simp: keys_sanitizeKeys)
next
  fix p
  assume "p \<in> set r" and np: "sanitizeKey (fst p) \<noteq> ''__proto__''"
  then have "fst p \<in> set (obj_keys r)" by (simp add: obj_keys_def)
  with np show "sanitizeKey (fst p) \<in> set (obj_keys (sanitizeKeys r))"
    by (simp add: keys_sanitizeKeys)
next
  fix p
  assume p: "p \<in> set r" and np: "sanitizeKey (fst p) \<noteq> ''__proto__''"
  from p have "filter (\<lambda>q. sanitizeKey (fst q) = sanitizeKey (fst p)) r \<noteq> []"
    by (auto simp: filter_empty_conv)
  then show "obj_get (sanitizeKeys r) (sanitizeKey (fst p)) =
      snd (last (filter (\<lambda>q. sanitizeKey (fst q) = sanitizeKey (fst p)) r))"
    by (simp add: obj_get_def map_of_sanitizeKeys_last [OF assms np])
next
  assume inj: "inj_on sanitizeKey (set (obj_keys r))"
    and np: "''__proto__'' \<notin> sanitizeKey ` set (obj_keys r)"
  have "distinct (obj_keys (sanitizeKeys r))"
    using wellFormed_sanitizeKeys [of r] by (simp add: wellFormed_def)
  then have "card (set (obj_keys (sanitizeKeys r))) = length (obj_keys (sanitizeKeys r))"
    by (rule distinct_card)
  then have "length (sanitizeKeys r) = card (set (obj_keys (sanitizeKeys r)))"
    by (simp add: obj_keys_def)
  also have "\<dots> = card (sanitizeKey ` set (obj_keys r))"
    using np by (simp add: keys_sanitizeKeys)
  also have "\<dots> = card (set (obj_keys r))"
    using inj by (rule card_image)
  also have "\<dots> = length r"
    using distinct_card [OF assms] by (simp add: obj_keys_def)
  finally show "length (sanitizeKeys r) = length r" .
next
  fix p
  assume inj: "inj_on sanitizeKey (set (obj_keys r))"
    and np: "''__proto__'' \<notin> sanitizeKey ` set (obj_keys r)"
    and p: "p \<in> set r"
  let ?F = "\<lambda>p. (sanitizeKey (fst p), snd p)"
  have "map fst (map ?F r) = map sanitizeKey (obj_keys r)"
    by (simp add: obj_keys_def comp_def)
  with assms inj have dal: "distinct (map fst (map ?F r))"
    by (simp add: distinct_map)
  from p have "(sanitizeKey (fst p), snd p) \<in> set (map ?F r)" by force
  with dal have "map_of (map ?F r) (sanitizeKey (fst p)) = Some (snd p)"
    by (rule map_of_is_SomeI)
  then show "obj_get (sanitizeKeys r) (sanitizeKey (fst p)) = snd p"
    by (simp add: obj_get_def map_of_sanitizeKeys [OF assms inj np])
next
  fix r'
  assume inj: "inj_on sanitizeKey (set (obj_keys r))"
    and np: "''__proto__'' \<notin> sanitizeKey ` set (obj_keys r)"
    and s: "set r' = set r" and dr': "distinct (obj_keys r')"
  let ?F = "\<lambda>p. (sanitizeKey (fst p), snd p)"
  from s have keys: "set (obj_keys r') = set (obj_keys r)" by (simp add: obj_keys_def)
  from dr' keys inj np have m': "map_of (sanitizeKeys r') = map_of (map ?F r')"
    by (intro map_of_sanitizeKeys) simp_all
  have "map fst (map ?F r) = map sanitizeKey (obj_keys r)"
    by (simp add: obj_keys_def comp_def)
  with assms inj have d: "distinct (map fst (map ?F r))"
    by (simp add: distinct_map)
  have "map fst (map ?F r') = map sanitizeKey (obj_keys r')"
    by (simp add: obj_keys_def comp_def)
  with dr' keys inj have d': "distinct (map fst (map ?F r'))"
    by (simp add: distinct_map)
  from s have "set (map ?F r') = set (map ?F r)" by simp
  with d d' have "map_of (map ?F r') = map_of (map ?F r)"
    by (simp add: map_of_inject_set)
  then show "map_of (sanitizeKeys r') = map_of (sanitizeKeys r)"
    by (simp add: m' map_of_sanitizeKeys [OF assms inj np])
qed

theorem sanitizeKeys_keeps_values_witness:
  "distinct (obj_keys [(''Reference'', Str ''1''), ('' reference'', Str ''2''), (''Mutation'', Str ''5'')])
   \<and> sanitizeKey ''Reference'' \<noteq> ''__proto__''
   \<and> sanitizeKeys [(''Reference'', Str ''1''), ('' reference'', Str ''2''), (''Mutation'', Str ''5'')] =
       [(''reference'', Str ''2''), (''mutation'', Str ''5'')]
   \<and> obj_get
       (sanitizeKeys [(''Reference'', Str ''1''), ('' reference'', Str ''2''), (''Mutation'', Str ''5'')])
       (sanitizeKey ''Reference'') = Str ''2''
   \<and> distinct (obj_keys rowValid)
   \<and> inj_on sanitizeKey (set (obj_keys rowValid))
   \<and> ''__proto__'' \<notin> sanitizeKey ` set (obj_keys rowValid)
   \<and> length (sanitizeKeys rowValid) = length rowValid
   \<and> obj_get (sanitizeKeys rowValid) (sanitizeKey '' Reference '') = Num (Fin 1)"
proof -
  let ?c = "[(''Reference'', Str ''1''), ('' reference'', Str ''2''), (''Mutation'', Str ''5'')]"
  have dc: "distinct (obj_keys ?c)" by code_simp
  have nc: "sanitizeKey ''Reference'' \<noteq> ''__proto__''" by code_simp
  have ec: "sanitizeKeys ?c = [(''reference'', Str ''2''), (''mutation'', Str ''5'')]" by code_simp
  have lc: "snd (last (filter (\<lambda>q. sanitizeKey (fst q) = sanitizeKey ''Reference'') ?c)) = Str ''2''"
    by code_simp
  have memc: "(''Reference'', Str ''1'') \<in> set ?c" by simp
  from sanitizeKeys_keeps_values [OF dc]
  have "\<forall>p \<in> set ?c. sanitizeKey (fst p) \<noteq> ''__proto__'' \<longrightarrow>
               sanitizeKey (fst p) \<in> set (obj_keys (sanitizeKeys ?c))
               \<and> obj_get (sanitizeKeys ?c) (sanitizeKey (fst p)) =
                   snd (last (filter (\<lambda>q. sanitizeKey (fst q) = sanitizeKey (fst p)) ?c))"
    by (rule conjunct1 [OF conjunct2 [OF conjunct2]])
  from bspec [OF this memc] nc
  have "obj_get (sanitizeKeys ?c) (sanitizeKey ''Reference'') =
          snd (last (filter (\<lambda>q. sanitizeKey (fst q) = sanitizeKey ''Reference'') ?c))"
    by simp
  then have gc: "obj_get (sanitizeKeys ?c) (sanitizeKey ''Reference'') = Str ''2''"
    by (simp only: lc)
  have d: "distinct (obj_keys rowValid)" by code_simp
  have "distinct (map sanitizeKey (obj_keys rowValid))" by code_simp
  then have i: "inj_on sanitizeKey (set (obj_keys rowValid))" by (simp add: distinct_map)
  have "''__proto__'' \<notin> set (map sanitizeKey (obj_keys rowValid))" by code_simp
  then have n: "''__proto__'' \<notin> sanitizeKey ` set (obj_keys rowValid)" by simp
  from sanitizeKeys_keeps_values [OF d] i n
  have t: "length (sanitizeKeys rowValid) = length rowValid
            \<and> (\<forall>p \<in> set rowValid. obj_get (sanitizeKeys rowValid) (sanitizeKey (fst p)) = snd p)
            \<and> (\<forall>r'. set r' = set rowValid \<and> distinct (obj_keys r') \<longrightarrow>
                  map_of (sanitizeKeys r') = map_of (sanitizeKeys rowValid))"
    by blast
  have mem: "('' Reference '', Num (Fin 1)) \<in> set rowValid" by (simp add: rowValid_def)
  from t have l: "length (sanitizeKeys rowValid) = length rowValid" by (rule conjunct1)
  from t have "\<forall>p \<in> set rowValid. obj_get (sanitizeKeys rowValid) (sanitizeKey (fst p)) = snd p"
    by blast
  from bspec [OF this mem]
  have g: "obj_get (sanitizeKeys rowValid) (sanitizeKey '' Reference '') = Num (Fin 1)" by simp
  show ?thesis
    by (rule conjI [OF dc conjI [OF nc conjI [OF ec conjI [OF gc
          conjI [OF d conjI [OF i conjI [OF n conjI [OF l g]]]]]]]])
qed

text \<open>
  C7. When the XML parser returns a tree without the path \<^verbatim>\<open>records.record\<close> (no
  \<^verbatim>\<open>records\<close> root, or no \<^verbatim>\<open>record\<close> below it), \<open>parseXml\<close> processes the empty
  list of records and returns the empty report; it does not fail.
\<close>

theorem parseXml_absent_path:
  assumes "xmlParse xmlString = Inr result"
    and "xml_get (xml_get result ''records'') ''record'' = XUndefined"
  shows "parseXml parse xmlParse xmlString = Inr []"
  using assms by (simp add: parseXml_def processFile_def)

theorem parseXml_absent_path_witness:
  "xml_get (xml_get (XObject [(''records'', XString '''')]) ''records'') ''record'' = XUndefined
   \<and> xml_get (xml_get (XObject []) ''records'') ''record'' = XUndefined
   \<and> parseXml safeParse (\<lambda>s. Inr (XObject [(''records'', XString '''')])) ''<records></records>''
       = Inr []
   \<and> parseXml safeParse (\<lambda>s. Inr (XObject [])) '''' = Inr []"
proof -
  have 1: "xml_get (xml_get (XObject [(''records'', XString '''')]) ''records'') ''record''
             = XUndefined" by simp
  have 2: "xml_get (xml_get (XObject []) ''records'') ''record'' = XUndefined" by simp
  have 3: "parseXml safeParse (\<lambda>s. Inr (XObject [(''records'', XString '''')]))
             ''<records></records>'' = Inr []"
    by (rule parseXml_absent_path [OF _ 1]) simp
  have 4: "parseXml safeParse (\<lambda>s. Inr (XObject [])) '''' = Inr []"
    by (rule parseXml_absent_path [OF _ 2]) simp
  show ?thesis by (rule conjI [OF 1 conjI [OF 2 conjI [OF 3 4]]])
qed

text \<open>
  C8. Every error record produced from XML input should have \<^verbatim>\<open>reference\<close> as its first
  key, and an error record produced from CSV input the keys of its source record in their
  order. The code does not achieve this for a record with a key that is an array index:
  \<open>reorderRecordForXml\<close> creates \<^verbatim>\<open>reference\<close> first, but an object enumerates its
  array-index keys before all others, whatever the order of creation. The record with a
  key \<^verbatim>\<open>0\<close>, processed as XML, gives an error record whose first key is \<^verbatim>\<open>0\<close>;
  and the record whose last key \<^verbatim>\<open>" 7"\<close> is normalised to \<^verbatim>\<open>7\<close>, processed as
  CSV, gives an error record in which this key has moved to the front.
\<close>

theorem errorRecord_index_key_first:
  "map obj_keys
     (processFile safeParse [textRow [(''0'', Str ''x'')] (Str ''1'') ''100'' ''20'' ''130'']
        ''xml'') =
   [[''0'', ''reference'', ''accountNumber'', ''startBalance'', ''mutation'', ''endBalance'',
     ''description'', ''errors'']]
   \<and> obj_keys (reorderRecordForXml
        (sanitizeKeys (textRow [(''0'', Str ''x'')] (Str ''1'') ''100'' ''20'' ''130''))) =
     [''0'', ''reference'', ''accountNumber'', ''startBalance'', ''mutation'', ''endBalance'',
      ''description'']
   \<and> obj_keys (textRow [] (Str ''1'') ''100'' ''20'' ''130'' @ [('' 7'', Str ''x'')]) =
     [''accountNumber'', ''startBalance'', ''mutation'', ''endBalance'', ''description'',
      ''reference'', '' 7'']
   \<and> map obj_keys
     (processFile safeParse [textRow [] (Str ''1'') ''100'' ''20'' ''130'' @ [('' 7'', Str ''x'')]]
        ''csv'') =
   [[''7'', ''accountNumber'', ''startBalance'', ''mutation'', ''endBalance'', ''description'',
     ''reference'', ''errors'']]"
proof -
  have 1: "map obj_keys
     (processFile safeParse [textRow [(''0'', Str ''x'')] (Str ''1'') ''100'' ''20'' ''130'']
        ''xml'') =
   [[''0'', ''reference'', ''accountNumber'', ''startBalance'', ''mutation'', ''endBalance'',
     ''description'', ''errors'']]"
    by code_simp
  have 2: "obj_keys (reorderRecordForXml
        (sanitizeKeys (textRow [(''0'', Str ''x'')] (Str ''1'') ''100'' ''20'' ''130''))) =
     [''0'', ''reference'', ''accountNumber'', ''startBalance'', ''mutation'', ''endBalance'',
      ''description'']"
    by code_simp
  have 3: "obj_keys (textRow [] (Str ''1'') ''100'' ''20'' ''130'' @ [('' 7'', Str ''x'')]) =
     [''accountNumber'', ''startBalance'', ''mutation'', ''endBalance'', ''description'',
      ''reference'', '' 7'']"
    by (simp add: textRow_def obj_keys_def)
  have 4: "map obj_keys
     (processFile safeParse [textRow [] (Str ''1'') ''100'' ''20'' ''130'' @ [('' 7'', Str ''x'')]]
        ''csv'') =
   [[''7'', ''accountNumber'', ''startBalance'', ''mutation'', ''endBalance'', ''description'',
     ''reference'', ''errors'']]"
    by code_simp
  show ?thesis by (rule conjI [OF 1 conjI [OF 2 conjI [OF 3 4]]])
qed

text \<open>
  C9. Structural validation reports every failing field, not the first only: the issues
  are the failing fields of the schema in its order, one issue each, and the error string
  is one entry \<^verbatim>\<open>Field - <path> Error - <message>\<close> per failing field, joined by
  \<^verbatim>\<open>" | "\<close>. A record whose reference coerces to a negative number, or to a number
  that is not an integer, fails.
\<close>

theorem safeParse_collects_all_failures:
  "safeParse ob =
     (if failingFields ob = [] then ParseSuccess
      else ParseFailure
             (map (\<lambda>f. \<lparr>path = [fst f], message = the (snd f (obj_get ob (fst f)))\<rparr>)
                (failingFields ob)))
   \<and> formatZodErrors (issuesOf (safeParse ob)) =
       join '' | ''
         (map (\<lambda>f. ''Field - '' @ fst f @ '' Error - '' @ the (snd f (obj_get ob (fst f))))
            (failingFields ob))
   \<and> (isNegative (Number (obj_get ob ''reference''))
        \<or> \<not> isInteger (Number (obj_get ob ''reference''))
       \<longrightarrow> safeParse ob \<noteq> ParseSuccess
           \<and> (''reference'', checkReference) \<in> set (failingFields ob))"
proof (intro conjI impI)
  show "safeParse ob =
     (if failingFields ob = [] then ParseSuccess
      else ParseFailure
             (map (\<lambda>f. \<lparr>path = [fst f], message = the (snd f (obj_get ob (fst f)))\<rparr>)
                (failingFields ob)))"
    by (rule safeParse_failingFields)
  show "formatZodErrors (issuesOf (safeParse ob)) =
       join '' | ''
         (map (\<lambda>f. ''Field - '' @ fst f @ '' Error - '' @ the (snd f (obj_get ob (fst f))))
            (failingFields ob))"
    by (simp add: safeParse_failingFields formatZodErrors_fields) (simp add: formatZodErrors_def)
next
  assume "isNegative (Number (obj_get ob ''reference''))
        \<or> \<not> isInteger (Number (obj_get ob ''reference''))"
  then have "checkReference (obj_get ob ''reference'') \<noteq> None"
    by (rule checkReference_fails)
  then have m: "(''reference'', checkReference) \<in> set (failingFields ob)"
    by (simp add: failingFields_def accountRecordSchema_def)
  then have "failingFields ob \<noteq> []" by auto
  then show "safeParse ob \<noteq> ParseSuccess" by (simp add: safeParse_failingFields)
  from m show "(''reference'', checkReference) \<in> set (failingFields ob)" .
qed

theorem safeParse_collects_all_failures_witness:
  "isNegative (Number (obj_get (textRow [] (Str ''-1'') ''100'' ''33e'' ''120'') ''reference''))
   \<and> safeParse (textRow [] (Str ''-1'') ''100'' ''33e'' ''120'') \<noteq> ParseSuccess
   \<and> map fst (failingFields (textRow [] (Str ''-1'') ''100'' ''33e'' ''120'')) =
       [''reference'', ''mutation'']
   \<and> formatZodErrors (issuesOf (safeParse (textRow [] (Str ''-1'') ''100'' ''33e'' ''120''))) =
       ''Field - reference Error - Too small: expected number to be >=0 | Field - mutation Error - Invalid input: expected number, received NaN''
   \<and> safeParse (textRow [] (Str ''1.5'') ''100'' ''20'' ''120'') \<noteq> ParseSuccess"
proof -
  let ?ob = "textRow [] (Str ''-1'') ''100'' ''33e'' ''120''"
  let ?ob2 = "textRow [] (Str ''1.5'') ''100'' ''20'' ''120''"
  have n: "isNegative (Number (obj_get ?ob ''reference''))" by code_simp
  have n2: "\<not> isInteger (Number (obj_get ?ob2 ''reference''))" by code_simp
  have f: "map fst (failingFields ?ob) = [''reference'', ''mutation'']" by code_simp
  have s: "formatZodErrors (issuesOf (safeParse ?ob)) =
       ''Field - reference Error - Too small: expected number to be >=0 | Field - mutation Error - Invalid input: expected number, received NaN''"
    by code_simp
  from safeParse_collects_all_failures [of ?ob] n have 1: "safeParse ?ob \<noteq> ParseSuccess"
    by blast
  from safeParse_collects_all_failures [of ?ob2] n2 have 2: "safeParse ?ob2 \<noteq> ParseSuccess"
    by blast
  show ?thesis by (rule conjI [OF n conjI [OF 1 conjI [OF f conjI [OF s 2]]]])
qed

text \<open>
  C10. The second pass looks up the value of the field \<^verbatim>\<open>reference\<close> of the
  normalised record as it is, a string or a number, and not the number the schema coerces
  it to: of two valid records the second is flagged \<^verbatim>\<open>Duplicate record\<close> exactly when
  the two values are equal. So the strings \<^verbatim>\<open>1\<close> and \<^verbatim>\<open>01\<close>, or the string
  \<^verbatim>\<open>1\<close> and the number 1, which coerce to the same number, are not duplicates of each
  other.
\<close>

theorem duplicates_compare_raw_references:
  assumes "parse (sanitizeKeys r1) = ParseSuccess"
    and "parse (sanitizeKeys r2) = ParseSuccess"
  shows "processFile parse [r1, r2] ty =
           map (\<lambda>p. errorRecordOf ty (sanitizeKeys (fst p)) (join ('' &'' @ [CHR 0x0A]) (snd p)))
             (filter (\<lambda>p. snd p \<noteq> [])
                [(r1, balanceErrors r1),
                 (r2, (if referenceOf r2 = referenceOf r1 then [''Duplicate record''] else [])
                      @ balanceErrors r2)])"
proof -
  from assms have "\<forall>r \<in> set [r1, r2]. parse (sanitizeKeys r) = ParseSuccess" by simp
  then have p: "processFile parse [r1, r2] ty = consistencyPass ty [r1, r2] {} []"
    by (rule processFile_valid)
  have u: "[0 ..< length [r1, r2]] = [0, Suc 0]" by (simp add: upt_rec)
  have e0: "expectedErrors [r1, r2] 0 = balanceErrors r1"
    by (simp add: expectedErrors_def laterOccurrence_def)
  have e1: "expectedErrors [r1, r2] (Suc 0) =
      (if referenceOf r2 = referenceOf r1 then [''Duplicate record''] else []) @ balanceErrors r2"
    by (simp add: expectedErrors_def laterOccurrence_def)
  show ?thesis unfolding p consistencyPass_all u by (simp add: e0 e1)
qed

theorem duplicates_compare_raw_references_witness:
  "safeParse (sanitizeKeys (textRow [] (Str ''1'') ''100'' ''20'' ''120'')) = ParseSuccess
   \<and> safeParse (sanitizeKeys (textRow [] (Str ''01'') ''100'' ''20'' ''120'')) = ParseSuccess
   \<and> safeParse (sanitizeKeys (textRow [] (Num (Fin 1)) ''100'' ''20'' ''120'')) = ParseSuccess
   \<and> Number (Str ''1'') = Fin 1 \<and> Number (Str ''01'') = Fin 1 \<and> Number (Num (Fin 1)) = Fin 1
   \<and> processFile safeParse
       [textRow [] (Str ''1'') ''100'' ''20'' ''120'', textRow [] (Str ''01'') ''100'' ''20'' ''120'']
       ''csv'' = []
   \<and> processFile safeParse
       [textRow [] (Str ''1'') ''100'' ''20'' ''120'', textRow [] (Num (Fin 1)) ''100'' ''20'' ''120'']
       ''csv'' = []"
proof -
  let ?a = "textRow [] (Str ''1'') ''100'' ''20'' ''120''"
  let ?b = "textRow [] (Str ''01'') ''100'' ''20'' ''120''"
  let ?c = "textRow [] (Num (Fin 1)) ''100'' ''20'' ''120''"
  have va: "safeParse (sanitizeKeys ?a) = ParseSuccess" by code_simp
  have vb: "safeParse (sanitizeKeys ?b) = ParseSuccess" by code_simp
  have vc: "safeParse (sanitizeKeys ?c) = ParseSuccess" by code_simp
  have n1: "Number (Str ''1'') = Fin 1" by code_simp
  have n2: "Number (Str ''01'') = Fin 1" by code_simp
  have n3: "Number (Num (Fin 1)) = Fin 1" by simp
  have ra: "referenceOf ?a = Str ''1''" by code_simp
  have rb: "referenceOf ?b = Str ''01''" by code_simp
  have rc: "referenceOf ?c = Num (Fin 1)" by code_simp
  have ba: "balanceErrors ?a = []" by code_simp
  have bb: "balanceErrors ?b = []" by code_simp
  have bc: "balanceErrors ?c = []" by code_simp
  have 1: "processFile safeParse [?a, ?b] ''csv'' = []"
    unfolding duplicates_compare_raw_references [OF va vb] by (simp add: ra rb ba bb)
  have 2: "processFile safeParse [?a, ?c] ''csv'' = []"
    unfolding duplicates_compare_raw_references [OF va vc] by (simp add: ra rc ba bc)
  show ?thesis
    by (rule conjI [OF va conjI [OF vb conjI [OF vc conjI [OF n1 conjI [OF n2 conjI [OF n3 conjI [OF 1 2]]]]]]])
qed

end
